theory Spec2Isabelle
  imports Complex_Main
begin

section \<open>The Steps component of intro.js-react\<close>

text \<open>
  The component \<^verbatim>\<open>Steps\<close> (src/components/Steps/index.js) keeps an imperative
  tour engine (the intro.js library) in step with React props. The engine, the document,
  React's \<^verbatim>\<open>isValidElement\<close> and \<^verbatim>\<open>renderToStaticMarkup\<close> are
  libraries outside the repository: the engine's methods, the document lookup and the
  markup renderer are parameters of the model (the record \<open>env\<close>), so a theorem
  holds for every engine unless it names a condition on the engine.

  Calls that leave the component (engine methods, consumer callbacks) have no effect on
  the component's own fields; they are recorded, in order, in the field \<open>trace\<close>, and
  so are the assignments to \<^verbatim>\<open>this.isVisible\<close>. A consumer callback is taken to
  return a value that depends on its arguments only, and not to call back into the
  component. An exception ends a run: the result is \<open>Inl\<close> of the error.
\<close>

subsection \<open>Data\<close>

type_synonym element = string
  \<comment> \<open>a DOM element, by identity\<close>

datatype jsval = JUndefined | JNull | JBool bool | JNum int | JStr string
  \<comment> \<open>what a consumer callback may return\<close>

datatype jsnum = NaN | PosInfinity | NegInfinity | Finite rat
  \<comment> \<open>a JavaScript number: a double, its finite values written as the rationals they are
      (the two zeros are not told apart: adding one gives the same for both)\<close>

datatype error = TypeError | SyntaxError
  \<comment> \<open>the exceptions of the modelled paths: a property read of null or undefined,
      and an invalid selector handed to the document\<close>

datatype node = NText string | NNumber int | NElement string | NArray "node list"
  \<comment> \<open>PropTypes.node: a string, a number, a React element (named), an array of nodes\<close>

datatype target = Selector string | ElementRef element
  \<comment> \<open>the \<^verbatim>\<open>element\<close> of a step: a selector string or an Element\<close>

record step =
  element :: "target option"
  intro :: node
  position :: "string option"
  tooltipClass :: "string option"
  highlightClass :: "string option"

datatype optval = OptVal jsval | OptSteps "step list"

type_synonym options = "string \<rightharpoonup> optval"
  \<comment> \<open>an options object: its own keys and their values\<close>

record intro_item =
  item_element :: "element option"
  item_position :: "string option"

record engine =
  currentStep :: "int option"
    \<comment> \<open>\<^verbatim>\<open>_currentStep\<close>, undefined until the engine sets it\<close>
  engine_options :: options
    \<comment> \<open>\<^verbatim>\<open>_options\<close>\<close>
  introItems :: "intro_item list"
    \<comment> \<open>\<^verbatim>\<open>_introItems\<close>\<close>

record props =
  enabled :: bool
  initialStep :: jsnum
  steps :: "step list"
  stepsRef :: nat
    \<comment> \<open>the identity of the steps array, compared by \<^verbatim>\<open>!==\<close>\<close>
  onStart :: bool
    \<comment> \<open>a callback whose result is ignored: supplied or not\<close>
  onBeforeExit :: "(int option \<Rightarrow> jsval) option"
  onBeforeChange :: "(int option \<Rightarrow> element \<Rightarrow> jsval) option"
  onAfterChange :: bool
  onChange :: bool
  onPreventChange :: bool
  onComplete :: bool
  options :: options
  optionsRef :: nat
    \<comment> \<open>the identity of the options object, compared by \<^verbatim>\<open>!==\<close>\<close>

text \<open>
  \<^verbatim>\<open>onExit\<close> is a required prop and is called without a test, so it is not a field:
  it is always there.
\<close>

datatype effect =
    EngineSetOptions options
  | EngineStart
  | EngineGoToStepNumber jsnum
  | EngineExit
  | SetVisible bool
  | CallOnStart "int option"
  | CallOnExit "int option"
  | CallOnBeforeExit "int option"
  | CallOnBeforeChange "int option" element
  | CallOnAfterChange "int option" element
  | CallOnChange "int option" element
  | CallOnPreventChange "int option"
  | CallOnComplete

datatype timer = PreventChangeTimer
  \<comment> \<open>the closure handed to \<^verbatim>\<open>setTimeout\<close> by onBeforeChange\<close>

record adapter =
  props :: props
  introJs :: "engine option"
  isConfigured :: bool
  isVisible :: bool
  trace :: "effect list"
  timers :: "timer list"

subsection \<open>The engine, seen from the component\<close>

datatype engine_event =
    EvExit | EvBeforeExit | EvBeforeChange element
  | EvAfterChange element | EvChange element | EvComplete

text \<open>
  What an engine method does while it runs: it changes its own fields and fires events
  at the registered handlers, and goes on according to what a handler returned.
\<close>

datatype script =
    Done
  | Fire engine_event "jsval \<Rightarrow> script"
  | Modify "engine \<Rightarrow> engine" script

record env =
  isServer :: bool
  introJs_new :: engine
  lib_setOptions :: "options \<Rightarrow> engine \<Rightarrow> engine"
  lib_start :: "engine \<Rightarrow> script"
  lib_goToStepNumber :: "jsnum \<Rightarrow> engine \<Rightarrow> script"
  lib_exit :: "engine \<Rightarrow> script"
  renderToStaticMarkup :: "node \<Rightarrow> string"
  querySelector :: "target option \<Rightarrow> error + element option"

subsection \<open>Adding numbers as JavaScript does\<close>

text \<open>
  \<^verbatim>\<open>initialStep + 1\<close> adds doubles: the exact sum is rounded to the nearest double,
  a tie going to the even significand, and a result of magnitude \<open>2^1024\<close> or more is
  an infinity. \<open>binade x\<close> is the exponent \<open>e\<close> with \<open>2^e \<le> x < 2^(e+1)\<close>, and
  \<open>ulp_of x\<close> the distance between neighbouring doubles there (53 significant bits,
  exponents from -1022).
\<close>

function bitlen :: "int \<Rightarrow> int" where
  "bitlen k = (if k \<le> 0 then 0 else 1 + bitlen (k div 2))"
  by pat_completeness auto
termination
  by (relation "measure nat") auto

declare bitlen.simps [simp del]

definition pow2 :: "int \<Rightarrow> rat" where
  "pow2 k = (if 0 \<le> k then 2 ^ nat k else 1 / 2 ^ nat (- k))"

definition binade :: "rat \<Rightarrow> int" where
  "binade x =
     (let d = bitlen (fst (quotient_of x)) - bitlen (snd (quotient_of x))
      in if pow2 d \<le> x then d else d - 1)"

definition round_half_even :: "rat \<Rightarrow> int" where
  "round_half_even x =
     (if x - of_int \<lfloor>x\<rfloor> < 1 / 2 then \<lfloor>x\<rfloor>
      else if 1 / 2 < x - of_int \<lfloor>x\<rfloor> then \<lfloor>x\<rfloor> + 1
      else if even \<lfloor>x\<rfloor> then \<lfloor>x\<rfloor> else \<lfloor>x\<rfloor> + 1)"

definition ulp_of :: "rat \<Rightarrow> rat" where
  "ulp_of x = pow2 (max (binade x) (- 1022) - 52)"

definition round64 :: "rat \<Rightarrow> jsnum" where
  "round64 q =
     (if q = 0 then Finite 0
      else if pow2 1024 \<le> of_int (round_half_even (\<bar>q\<bar> / ulp_of \<bar>q\<bar>)) * ulp_of \<bar>q\<bar>
      then (if 0 < q then PosInfinity else NegInfinity)
      else Finite (if 0 < q then of_int (round_half_even (\<bar>q\<bar> / ulp_of \<bar>q\<bar>)) * ulp_of \<bar>q\<bar>
                   else - (of_int (round_half_even (\<bar>q\<bar> / ulp_of \<bar>q\<bar>)) * ulp_of \<bar>q\<bar>)))"

fun js_add :: "jsnum \<Rightarrow> jsnum \<Rightarrow> jsnum" where
  "js_add (Finite a) (Finite b) = round64 (a + b)"
| "js_add NaN y = NaN"
| "js_add x NaN = NaN"
| "js_add PosInfinity NegInfinity = NaN"
| "js_add NegInfinity PosInfinity = NaN"
| "js_add PosInfinity y = PosInfinity"
| "js_add NegInfinity y = NegInfinity"
| "js_add x PosInfinity = PosInfinity"
| "js_add x NegInfinity = NegInfinity"

text \<open>React's test for a React element: no string, number or array is one.\<close>

fun isValidElement :: "node \<Rightarrow> bool" where
  "isValidElement (NElement r) = True"
| "isValidElement n = False"

subsection \<open>The event handlers\<close>

text \<open>
  The six arrow functions onExit, onBeforeExit, onBeforeChange, onAfterChange, onChange
  and onComplete of the class (lines 116 to 205). They carry the suffix \<open>_relay\<close> here,
  since the props of the same names are fields of \<open>props\<close>. A handler returns what the
  JavaScript function returns, and the component as it leaves it.
\<close>

definition emit :: "effect \<Rightarrow> adapter \<Rightarrow> adapter" where
  "emit e w = w\<lparr>trace := trace w @ [e]\<rparr>"

definition setVisible :: "bool \<Rightarrow> adapter \<Rightarrow> adapter" where
  "setVisible b w = emit (SetVisible b) (w\<lparr>isVisible := b\<rparr>)"

definition onExit_relay :: "adapter \<Rightarrow> error + jsval \<times> adapter" where
  "onExit_relay w =
     (let w1 = setVisible False w in
      case introJs w1 of
        None \<Rightarrow> Inl TypeError
      | Some e \<Rightarrow> Inr (JUndefined, emit (CallOnExit (currentStep e)) w1))"

definition onBeforeExit_relay :: "adapter \<Rightarrow> error + jsval \<times> adapter" where
  "onBeforeExit_relay w =
     (case onBeforeExit (props w) of
        Some f \<Rightarrow>
          (case introJs w of
             None \<Rightarrow> Inl TypeError
           | Some e \<Rightarrow> Inr (f (currentStep e), emit (CallOnBeforeExit (currentStep e)) w))
      | None \<Rightarrow> Inr (JBool True, w))"

definition setTimeout :: "timer \<Rightarrow> adapter \<Rightarrow> adapter" where
  "setTimeout t w = w\<lparr>timers := timers w @ [t]\<rparr>"

definition onBeforeChange_relay :: "element \<Rightarrow> adapter \<Rightarrow> error + jsval \<times> adapter" where
  "onBeforeChange_relay nextElement w =
     (if \<not> isVisible w then Inr (JBool True, w)
      else
        case onBeforeChange (props w) of
          Some f \<Rightarrow>
            (case introJs w of
               None \<Rightarrow> Inl TypeError
             | Some e \<Rightarrow>
                 (let continueStep = f (currentStep e) nextElement;
                      w1 = emit (CallOnBeforeChange (currentStep e) nextElement) w
                  in Inr (continueStep,
                          if continueStep = JBool False \<and> onPreventChange (props w)
                          then setTimeout PreventChangeTimer w1 else w1)))
        | None \<Rightarrow> Inr (JBool True, w))"

definition onAfterChange_relay :: "element \<Rightarrow> adapter \<Rightarrow> error + jsval \<times> adapter" where
  "onAfterChange_relay el w =
     (if \<not> isVisible w then Inr (JUndefined, w)
      else if onAfterChange (props w) then
        (case introJs w of
           None \<Rightarrow> Inl TypeError
         | Some e \<Rightarrow> Inr (JUndefined, emit (CallOnAfterChange (currentStep e) el) w))
      else Inr (JUndefined, w))"

definition onChange_relay :: "element \<Rightarrow> adapter \<Rightarrow> error + jsval \<times> adapter" where
  "onChange_relay el w =
     (if \<not> isVisible w then Inr (JUndefined, w)
      else if onChange (props w) then
        (case introJs w of
           None \<Rightarrow> Inl TypeError
         | Some e \<Rightarrow> Inr (JUndefined, emit (CallOnChange (currentStep e) el) w))
      else Inr (JUndefined, w))"

definition onComplete_relay :: "adapter \<Rightarrow> error + jsval \<times> adapter" where
  "onComplete_relay w =
     (if onComplete (props w) then Inr (JUndefined, emit CallOnComplete w)
      else Inr (JUndefined, w))"

text \<open>
  The timer's closure reads \<^verbatim>\<open>this.introJs._currentStep\<close> when it runs, not when it
  was scheduled.
\<close>

definition runTimer :: "adapter \<Rightarrow> error + adapter" where
  "runTimer w =
     (case timers w of
        [] \<Rightarrow> Inr w
      | PreventChangeTimer # ts \<Rightarrow>
          (case introJs w of
             None \<Rightarrow> Inl TypeError
           | Some e \<Rightarrow> Inr (emit (CallOnPreventChange (currentStep e)) (w\<lparr>timers := ts\<rparr>))))"

text \<open>installIntroJs registers one handler for each of the six events.\<close>

fun dispatch :: "engine_event \<Rightarrow> adapter \<Rightarrow> error + jsval \<times> adapter" where
  "dispatch EvExit w = onExit_relay w"
| "dispatch EvBeforeExit w = onBeforeExit_relay w"
| "dispatch (EvBeforeChange el) w = onBeforeChange_relay el w"
| "dispatch (EvAfterChange el) w = onAfterChange_relay el w"
| "dispatch (EvChange el) w = onChange_relay el w"
| "dispatch EvComplete w = onComplete_relay w"

text \<open>
  Running a method of the engine: each event goes to its handler, and what the handler
  returns decides how the method goes on; the method's own changes go to the engine.
\<close>

primrec run :: "script \<Rightarrow> adapter \<Rightarrow> error + adapter" where
  "run Done w = Inr w"
| "run (Fire ev k) w =
     (case dispatch ev w of
        Inl err \<Rightarrow> Inl err
      | Inr (r, w') \<Rightarrow> run (k r) w')"
| "run (Modify f s) w = run s (w\<lparr>introJs := map_option f (introJs w)\<rparr>)"

subsection \<open>Calls into the engine\<close>

text \<open>
  A method call on \<^verbatim>\<open>this.introJs\<close>: a TypeError when the engine was never
  installed, else the call is recorded and the method runs, firing its events.
\<close>

definition engine_call :: "effect \<Rightarrow> (engine \<Rightarrow> script) \<Rightarrow> adapter \<Rightarrow> error + adapter" where
  "engine_call eff m w =
     (case introJs w of
        None \<Rightarrow> Inl TypeError
      | Some e \<Rightarrow> run (m e) (emit eff w))"

subsection \<open>Construction, configuration and rendering\<close>

text \<open>
  The constructor with installIntroJs (lines 66 to 75 and 224 to 237), configureIntroJs
  (lines 242 to 259) and renderSteps (lines 264 to 282). On the server no engine is
  installed and \<^verbatim>\<open>this.introJs\<close> stays null.
\<close>

definition installIntroJs :: "env \<Rightarrow> adapter \<Rightarrow> adapter" where
  "installIntroJs X w = (if isServer X then w else w\<lparr>introJs := Some (introJs_new X)\<rparr>)"

definition constructor :: "env \<Rightarrow> props \<Rightarrow> adapter" where
  "constructor X p =
     installIntroJs X
       \<lparr>props = p, introJs = None, isConfigured = False, isVisible = False,
        trace = [], timers = []\<rparr>"

definition sanitize :: "env \<Rightarrow> step \<Rightarrow> step" where
  "sanitize X s =
     (if isValidElement (intro s)
      then s\<lparr>intro := NText (renderToStaticMarkup X (intro s))\<rparr>
      else s)"

definition sanitizedSteps :: "env \<Rightarrow> step list \<Rightarrow> step list" where
  "sanitizedSteps X ss = map (sanitize X) ss"

definition mergedOptions :: "env \<Rightarrow> props \<Rightarrow> options" where
  "mergedOptions X p = (options p)(''steps'' \<mapsto> OptSteps (sanitizedSteps X (steps p)))"

definition configureIntroJs :: "env \<Rightarrow> adapter \<Rightarrow> error + adapter" where
  "configureIntroJs X w =
     (case introJs w of
        None \<Rightarrow> Inl TypeError
      | Some e \<Rightarrow>
          Inr ((emit (EngineSetOptions (mergedOptions X (props w))) w)
                 \<lparr>introJs := Some (lib_setOptions X (mergedOptions X (props w)) e),
                  isConfigured := True\<rparr>))"

definition onStart_call :: "adapter \<Rightarrow> error + adapter" where
  "onStart_call w =
     (if onStart (props w) then
        (case introJs w of
           None \<Rightarrow> Inl TypeError
         | Some e \<Rightarrow> Inr (emit (CallOnStart (currentStep e)) w))
      else Inr w)"

definition renderSteps :: "env \<Rightarrow> adapter \<Rightarrow> error + adapter" where
  "renderSteps X w =
     (if enabled (props w) \<and> length (steps (props w)) > 0 \<and> \<not> isVisible w then
        (case engine_call EngineStart (lib_start X) w of
           Inl err \<Rightarrow> Inl err
         | Inr w1 \<Rightarrow>
             (case engine_call (EngineGoToStepNumber (js_add (initialStep (props w)) (Finite 1)))
                     (lib_goToStepNumber X (js_add (initialStep (props w)) (Finite 1)))
                     (setVisible True w1) of
                Inl err \<Rightarrow> Inl err
              | Inr w2 \<Rightarrow> onStart_call w2))
      else if \<not> enabled (props w) \<and> isVisible w then
        engine_call EngineExit (lib_exit X) (setVisible False w)
      else Inr w)"

subsection \<open>The lifecycle\<close>

text \<open>
  componentDidMount, componentDidUpdate and componentWillUnmount (lines 81 to 111).
  \<^verbatim>\<open>prevProps.steps !== steps\<close> compares references, here \<open>stepsRef\<close>.
\<close>

definition componentDidMount :: "env \<Rightarrow> adapter \<Rightarrow> error + adapter" where
  "componentDidMount X w =
     (if enabled (props w) then
        (case configureIntroJs X w of
           Inl err \<Rightarrow> Inl err
         | Inr w1 \<Rightarrow> renderSteps X w1)
      else Inr w)"

definition componentDidUpdate :: "env \<Rightarrow> props \<Rightarrow> adapter \<Rightarrow> error + adapter" where
  "componentDidUpdate X prevProps w =
     (case
        (if \<not> isConfigured w \<or> stepsRef prevProps \<noteq> stepsRef (props w)
            \<or> optionsRef prevProps \<noteq> optionsRef (props w)
         then
           (case configureIntroJs X w of
              Inl err \<Rightarrow> Inl err
            | Inr w1 \<Rightarrow> renderSteps X w1)
         else Inr w) of
        Inl err \<Rightarrow> Inl err
      | Inr w2 \<Rightarrow>
          (if enabled prevProps \<noteq> enabled (props w) then renderSteps X w2 else Inr w2))"

definition componentWillUnmount :: "env \<Rightarrow> adapter \<Rightarrow> error + adapter" where
  "componentWillUnmount X w = engine_call EngineExit (lib_exit X) w"

subsection \<open>Re-binding a step's element\<close>

text \<open>updateStepElement (lines 212 to 219).\<close>

text \<open>
  \<^verbatim>\<open>position || 'auto'\<close>: an absent position and the empty string are falsy.
\<close>

definition positionOrAuto :: "string option \<Rightarrow> string" where
  "positionOrAuto p = (case p of None \<Rightarrow> ''auto'' | Some s \<Rightarrow> if s = [] then ''auto'' else s)"

text \<open>
  The \<^verbatim>\<open>element\<close> and \<^verbatim>\<open>position\<close> of
  \<^verbatim>\<open>this.introJs._options.steps[stepIndex]\<close>. Reading a property of undefined is
  a TypeError: so when the options hold no steps, and when the index is out of range.
  Should the options hold a string under steps, indexing gives a one-character string,
  whose two properties are undefined; a number, a boolean or null under steps ends in
  the TypeError.
\<close>

definition configuredStep :: "engine \<Rightarrow> nat \<Rightarrow> error + target option \<times> string option" where
  "configuredStep e stepIndex =
     (case engine_options e ''steps'' of
        Some (OptSteps ss) \<Rightarrow>
          if stepIndex < length ss
          then Inr (element (ss ! stepIndex), position (ss ! stepIndex))
          else Inl TypeError
      | Some (OptVal (JStr t)) \<Rightarrow>
          if stepIndex < length t then Inr (None, None) else Inl TypeError
      | _ \<Rightarrow> Inl TypeError)"

definition updateStepElement :: "env \<Rightarrow> nat \<Rightarrow> adapter \<Rightarrow> error + adapter" where
  "updateStepElement X stepIndex w =
     (case introJs w of
        None \<Rightarrow> Inl TypeError
      | Some e \<Rightarrow>
          (case configuredStep e stepIndex of
             Inl err \<Rightarrow> Inl err
           | Inr (sel, pos) \<Rightarrow>
               (case querySelector X sel of
                  Inl err \<Rightarrow> Inl err
                | Inr None \<Rightarrow> Inr w
                | Inr (Some el) \<Rightarrow>
                    if stepIndex < length (introItems e) then
                      Inr (w\<lparr>introJs := Some (e\<lparr>introItems := (introItems e)
                             [stepIndex := (introItems e ! stepIndex)
                                \<lparr>item_element := Some el,
                                 item_position := Some (positionOrAuto pos)\<rparr>]\<rparr>)\<rparr>)
                    else Inl TypeError)))"

subsection \<open>What happens to a mounted component\<close>

datatype op =
    Mount
  | Update props
  | Unmount
  | EngineRuns script
  | TimerFires
  | Rebind nat

text \<open>
  React stores the new props and then calls componentDidUpdate with the old ones. The
  engine may run on its own (the user presses a button of the tour) and fire events. A
  pending timer runs when nothing else does.
\<close>

fun exec :: "env \<Rightarrow> op \<Rightarrow> adapter \<Rightarrow> error + adapter" where
  "exec X Mount w = componentDidMount X w"
| "exec X (Update p) w = componentDidUpdate X (props w) (w\<lparr>props := p\<rparr>)"
| "exec X Unmount w = componentWillUnmount X w"
| "exec X (EngineRuns s) w = run s w"
| "exec X TimerFires w = runTimer w"
| "exec X (Rebind i) w = updateStepElement X i w"

fun execs :: "env \<Rightarrow> op list \<Rightarrow> adapter \<Rightarrow> error + adapter" where
  "execs X [] w = Inr w"
| "execs X (o1 # os) w =
     (case exec X o1 w of
        Inl err \<Rightarrow> Inl err
      | Inr w1 \<Rightarrow> execs X os w1)"

subsection \<open>Observing a run\<close>

text \<open>
  The events a method fires, each with the component as its handler finds it on entry.
\<close>

primrec fired :: "script \<Rightarrow> adapter \<Rightarrow> (engine_event \<times> adapter) list" where
  "fired Done w = []"
| "fired (Fire ev k) w =
     (ev, w) # (case dispatch ev w of
                  Inl err \<Rightarrow> []
                | Inr (r, w') \<Rightarrow> fired (k r) w')"
| "fired (Modify f s) w = fired s (w\<lparr>introJs := map_option f (introJs w)\<rparr>)"

text \<open>
  The effects a handler may leave in the trace: a consumer callback of the relay, or the
  flag set to false by the exit handler.
\<close>

fun relay_effect :: "effect \<Rightarrow> bool" where
  "relay_effect (SetVisible b) = (\<not> b)"
| "relay_effect (CallOnExit c) = True"
| "relay_effect (CallOnBeforeExit c) = True"
| "relay_effect (CallOnBeforeChange c el) = True"
| "relay_effect (CallOnAfterChange c el) = True"
| "relay_effect (CallOnChange c el) = True"
| "relay_effect CallOnComplete = True"
| "relay_effect e = False"

fun is_setOptions :: "effect \<Rightarrow> bool" where
  "is_setOptions (EngineSetOptions m) = True"
| "is_setOptions e = False"

definition configure_runs :: "effect list \<Rightarrow> nat" where
  "configure_runs l = length (filter is_setOptions l)"

definition ref_pair :: "props \<Rightarrow> nat \<times> nat" where
  "ref_pair p = (stepsRef p, optionsRef p)"

text \<open>
  The flag as a history leaves it: the value of its last assignment, false at
  construction.
\<close>

fun flag_after :: "bool \<Rightarrow> effect \<Rightarrow> bool" where
  "flag_after b (SetVisible v) = v"
| "flag_after b e = b"

definition vis_of :: "effect list \<Rightarrow> bool" where
  "vis_of l = foldl flag_after False l"

text \<open>
  The tour is on after a history when the adapter's latest start has not been followed
  by an exit, issued by the adapter or relayed from the engine to the consumer.
\<close>

fun on_after :: "bool \<Rightarrow> effect \<Rightarrow> bool" where
  "on_after b EngineStart = True"
| "on_after b EngineExit = False"
| "on_after b (CallOnExit c) = False"
| "on_after b e = b"

definition tour_on :: "effect list \<Rightarrow> bool" where
  "tour_on l = foldl on_after False l"

text \<open>
  The two places where the flag and the history part for a moment: the start has been
  issued and the flag is not yet set, or the flag has been cleared and the exit is not
  yet issued or reported.
\<close>

fun window :: "effect \<Rightarrow> bool" where
  "window EngineStart = True"
| "window (SetVisible b) = (\<not> b)"
| "window e = False"

text \<open>
  A step of the tour that the consumer may veto: the engine moves on (\<open>advance\<close>), asks
  the before-change handler with the next element, and when the handler returns false it
  takes the move back (\<open>undo\<close>) and stops; else it goes on with \<open>rest\<close>.
\<close>

definition transition ::
  "(engine \<Rightarrow> engine) \<Rightarrow> (engine \<Rightarrow> engine) \<Rightarrow> element \<Rightarrow> (jsval \<Rightarrow> script) \<Rightarrow> script" where
  "transition advance undo el rest =
     Modify advance
       (Fire (EvBeforeChange el)
          (\<lambda>r. if r = JBool False then Modify undo Done else rest r))"

text \<open>The trace a run leaves; none when it ended in an exception.\<close>

definition trace_of :: "error + adapter \<Rightarrow> effect list" where
  "trace_of r = (case r of Inl err \<Rightarrow> [] | Inr w \<Rightarrow> trace w)"

text \<open>
  The spec's renderable node, in its words: intro content that is not a plain string.
\<close>

fun spec_renderable_node :: "node \<Rightarrow> bool" where
  "spec_renderable_node (NText t) = False"
| "spec_renderable_node n = True"

text \<open>A method that fires change events only, whatever the handlers return.\<close>

fun is_change :: "engine_event \<Rightarrow> bool" where
  "is_change (EvBeforeChange el) = True"
| "is_change (EvAfterChange el) = True"
| "is_change (EvChange el) = True"
| "is_change ev = False"

primrec change_only :: "script \<Rightarrow> bool" where
  "change_only Done = True"
| "change_only (Fire ev k) = (is_change ev \<and> (\<forall>r. change_only (k r)))"
| "change_only (Modify f s) = change_only s"

subsection \<open>A sample engine and sample props\<close>

text \<open>
  A small engine in the manner of intro.js, to run the component on: going to the next
  step advances the index, asks the before-change handler, and steps back when the
  handler returns false; exit asks the before-exit handler first.
\<close>

definition demo_advance :: "engine \<Rightarrow> engine" where
  "demo_advance e = e\<lparr>currentStep := Some (case currentStep e of None \<Rightarrow> 0 | Some c \<Rightarrow> c + 1)\<rparr>"

definition demo_undo :: "engine \<Rightarrow> engine" where
  "demo_undo e = e\<lparr>currentStep := map_option (\<lambda>c. c - 1) (currentStep e)\<rparr>"

definition demo_rest :: "jsval \<Rightarrow> script" where
  "demo_rest r = Fire (EvChange ''target'') (\<lambda>r1. Fire (EvAfterChange ''target'') (\<lambda>r2. Done))"

definition demo_next :: script where
  "demo_next = transition demo_advance demo_undo ''target'' demo_rest"

text \<open>The same step of an engine that stays on the new index when the handler vetoes.\<close>

definition demo_next_no_undo :: script where
  "demo_next_no_undo = transition demo_advance (\<lambda>e. e) ''target'' demo_rest"

text \<open>The user going back to the first step of the tour.\<close>

definition demo_back_to_first :: script where
  "demo_back_to_first = Modify (\<lambda>e. e\<lparr>currentStep := Some 0\<rparr>) Done"

definition demo_exit :: script where
  "demo_exit = Fire EvBeforeExit (\<lambda>r. if r = JBool False then Done else Fire EvExit (\<lambda>r1. Done))"

definition demo_engine :: engine where
  "demo_engine = \<lparr>currentStep = None, engine_options = Map.empty, introItems = []\<rparr>"

definition demo_items :: "engine \<Rightarrow> intro_item list" where
  "demo_items e =
     (case engine_options e ''steps'' of
        Some (OptSteps ss) \<Rightarrow> map (\<lambda>s. \<lparr>item_element = None, item_position = position s\<rparr>) ss
      | _ \<Rightarrow> [])"

definition demo_env :: env where
  "demo_env =
     \<lparr>isServer = False,
      introJs_new = demo_engine,
      lib_setOptions = (\<lambda>m e. e\<lparr>engine_options := engine_options e ++ m\<rparr>),
      lib_start = (\<lambda>e. Modify (\<lambda>e1. e1\<lparr>currentStep := None, introItems := demo_items e1\<rparr>) demo_next),
      lib_goToStepNumber =
        (\<lambda>n e. Modify (\<lambda>e1. e1\<lparr>currentStep := (case n of Finite q \<Rightarrow> Some (\<lfloor>q\<rfloor> - 2)
                                                    | _ \<Rightarrow> None)\<rparr>)
                 demo_next),
      lib_exit = (\<lambda>e. demo_exit),
      renderToStaticMarkup = (\<lambda>n. case n of NElement r \<Rightarrow> r | _ \<Rightarrow> []),
      querySelector = (\<lambda>t. case t of
                              Some (Selector sel) \<Rightarrow> if sel = ''#late'' then Inr (Some ''late'') else Inr None
                            | Some (ElementRef el) \<Rightarrow> Inl SyntaxError
                            | None \<Rightarrow> Inr None)\<rparr>"

definition demo_step0 :: step where
  "demo_step0 =
     \<lparr>element = Some (Selector ''#first''), intro = NText ''Welcome'', position = Some ''top'',
      tooltipClass = None, highlightClass = None\<rparr>"

definition demo_step1 :: step where
  "demo_step1 =
     \<lparr>element = Some (Selector ''#late''), intro = NElement ''<b>More</b>'', position = None,
      tooltipClass = None, highlightClass = None\<rparr>"

definition demo_props :: props where
  "demo_props =
     \<lparr>enabled = False, initialStep = Finite 1, steps = [demo_step0, demo_step1], stepsRef = 0,
      onStart = True, onBeforeExit = None,
      onBeforeChange = Some (\<lambda>c el. if c = Some 2 then JBool False else JUndefined),
      onAfterChange = True, onChange = True, onPreventChange = True, onComplete = True,
      options = [''showButtons'' \<mapsto> OptVal (JBool True), ''steps'' \<mapsto> OptVal JNull],
      optionsRef = 0\<rparr>"

text \<open>How many times the engine was configured when a list of operations has run.\<close>

definition configured_times :: "env \<Rightarrow> op list \<Rightarrow> props \<Rightarrow> nat option" where
  "configured_times X ops p =
     (case execs X ops (constructor X p) of
        Inl err \<Rightarrow> None
      | Inr w \<Rightarrow> Some (configure_runs (trace w)))"

text \<open>The sample component, mounted with the tour enabled.\<close>

definition demo_visible :: adapter where
  "demo_visible =
     (case componentDidMount demo_env (constructor demo_env (demo_props\<lparr>enabled := True\<rparr>)) of
        Inr w \<Rightarrow> w
      | Inl err \<Rightarrow> constructor demo_env demo_props)"

text \<open>The sample component inside renderSteps, when the engine's start has returned.\<close>

definition demo_started :: adapter where
  "demo_started =
     (case engine_call EngineStart (lib_start demo_env)
             (constructor demo_env (demo_props\<lparr>enabled := True\<rparr>)) of
        Inr w \<Rightarrow> w
      | Inl err \<Rightarrow> constructor demo_env demo_props)"

subsection \<open>The invariant of the flag\<close>

text \<open>
  Along a history that starts with the flag at \<open>v\<close> and the tour at \<open>t\<close>, the two agree
  after every effect outside the windows.
\<close>

fun agrees_along :: "bool \<Rightarrow> bool \<Rightarrow> effect list \<Rightarrow> bool" where
  "agrees_along v t [] = True"
| "agrees_along v t (x # xs) =
     ((window x \<or> flag_after v x = on_after t x)
      \<and> agrees_along (flag_after v x) (on_after t x) xs)"

definition settled :: "adapter \<Rightarrow> bool" where
  "settled w =
     (isVisible w = vis_of (trace w) \<and> vis_of (trace w) = tour_on (trace w)
      \<and> agrees_along False False (trace w))"

section \<open>Facts about the addition of numbers\<close>

text \<open>
  An integer of magnitude up to \<open>2^53\<close> is a double, so adding one to an integer of
  magnitude below \<open>2^53\<close> is exact.
\<close>

lemma bitlen_bounds:
  "0 < k \<Longrightarrow> 1 \<le> bitlen k \<and> 2 ^ nat (bitlen k - 1) \<le> k \<and> k < 2 ^ nat (bitlen k)"
proof (induction k rule: bitlen.induct)
  case (1 k)
  show ?case
  proof (cases "k = 1")
    case True
    then show ?thesis by (simp add: bitlen.simps)
  next
    case False
    with "1.prems" have h: "0 < k div 2" "\<not> k \<le> 0" by auto
    from "1.IH"[OF h(2) h(1)] have
      ih: "1 \<le> bitlen (k div 2)" "2 ^ nat (bitlen (k div 2) - 1) \<le> k div 2"
          "k div 2 < 2 ^ nat (bitlen (k div 2))"
      by simp_all
    have b: "bitlen k = 1 + bitlen (k div 2)" using h(2) by (subst bitlen.simps) simp
    have n1: "nat (bitlen k - 1) = Suc (nat (bitlen (k div 2) - 1))" using b ih(1) by simp
    have n2: "nat (bitlen k) = Suc (nat (bitlen (k div 2)))" using b ih(1) by simp
    have "2 * 2 ^ nat (bitlen (k div 2) - 1) \<le> k" using ih(2) by simp
    moreover have "k < 2 * 2 ^ nat (bitlen (k div 2))" using ih(3) by simp
    ultimately show ?thesis using b ih(1) n1 n2 by simp
  qed
qed

lemma bitlen_one: "bitlen 1 = 1"
  by (simp add: bitlen.simps)

lemma round_half_even_of_int: "round_half_even (of_int n) = n"
  by (simp add: round_half_even_def)

lemma pow2_low: "e \<le> 52 \<Longrightarrow> pow2 (e - 52) = 1 / 2 ^ nat (52 - e)"
  by (cases "e = 52") (simp_all add: pow2_def)

lemma round64_two53: "round64 (2 ^ 53) = Finite (2 ^ 53)"
  by code_simp

lemma round64_pos_int:
  assumes "0 < m" and "m \<le> 2 ^ 53"
  shows "round64 (of_int m) = Finite (of_int m)"
proof -
  let ?e = "bitlen m - 1"
  from bitlen_bounds[OF assms(1)] have
    b: "1 \<le> bitlen m" "2 ^ nat ?e \<le> m" "m < 2 ^ nat (bitlen m)"
    by simp_all
  have p: "pow2 ?e = of_int (2 ^ nat ?e)" using b(1) by (simp add: pow2_def)
  have "pow2 ?e \<le> of_int m" unfolding p using b(2) by (simp only: of_int_le_iff)
  then have bin: "binade (of_int m) = ?e"
    by (simp add: binade_def Let_def bitlen_one)
  have le53: "(2::int) ^ nat ?e \<le> 2 ^ 53" using b(2) assms(2) by linarith
  have one2: "(1::int) < 2" by simp
  have "nat ?e \<le> 53" by (rule power_le_imp_le_exp[OF one2 le53])
  then have e53: "?e \<le> 53" by simp
  show ?thesis
  proof (cases "?e = 53")
    case True
    then have "(2::int) ^ 53 \<le> m" using b(2) by simp
    with assms(2) have "m = 2 ^ 53" by simp
    then show ?thesis using round64_two53 by simp
  next
    case False
    with e53 have le: "?e \<le> 52" by simp
    have ge: "0 \<le> ?e" using b(1) by simp
    let ?j = "nat (52 - ?e)"
    have a: "\<bar>(of_int m::rat)\<bar> = of_int m" using assms(1) by simp
    have u: "ulp_of (of_int m) = 1 / 2 ^ ?j"
      using bin ge pow2_low[OF le] by (simp add: ulp_of_def max_def)
    have d: "(of_int m::rat) / ulp_of (of_int m) = of_int (m * 2 ^ ?j)"
      unfolding u by simp
    have r: "of_int (round_half_even ((of_int m::rat) / ulp_of (of_int m))) * ulp_of (of_int m)
               = (of_int m :: rat)"
      unfolding d round_half_even_of_int unfolding u by simp
    have big: "\<not> pow2 1024 \<le> (of_int m :: rat)"
    proof -
      have "(of_int m :: rat) \<le> of_int (2 ^ 53)" using assms(2) by (simp only: of_int_le_iff)
      moreover have "(of_int (2 ^ 53) :: rat) < pow2 1024" by (simp add: pow2_def)
      ultimately show ?thesis by linarith
    qed
    have nz: "(of_int m :: rat) \<noteq> 0" "0 < (of_int m :: rat)" using assms(1) by simp_all
    show ?thesis
      unfolding round64_def a r using big nz by simp
  qed
qed

lemma round64_neg:
  "round64 (- q) =
     (case round64 q of
        Finite r \<Rightarrow> Finite (- r)
      | PosInfinity \<Rightarrow> NegInfinity
      | NegInfinity \<Rightarrow> PosInfinity
      | NaN \<Rightarrow> NaN)"
  by (cases "q = 0"; cases "0 < q") (auto simp: round64_def)

lemma round64_int:
  assumes "\<bar>m\<bar> \<le> 2 ^ 53"
  shows "round64 (of_int m) = Finite (of_int m)"
proof -
  consider "m = 0" | "0 < m" | "m < 0" by linarith
  then show ?thesis
  proof cases
    case 1
    then show ?thesis by (simp add: round64_def)
  next
    case 2
    with assms round64_pos_int[of m] show ?thesis by simp
  next
    case 3
    with assms have "0 < - m" "- m \<le> 2 ^ 53" by simp_all
    from round64_pos_int[OF this] have "round64 (of_int (- m)) = Finite (of_int (- m))" .
    then have "round64 (- of_int m) = Finite (- of_int m)" by simp
    with round64_neg[of "- of_int m"] show ?thesis by simp
  qed
qed

lemma js_add_one_exact:
  assumes "\<bar>k\<bar> < 2 ^ 53"
  shows "js_add (Finite (of_int k)) (Finite 1) = Finite (of_int (k + 1))"
proof -
  have "\<bar>k + 1\<bar> \<le> 2 ^ 53" using assms by simp
  from round64_int[OF this] show ?thesis by simp
qed

lemma round64_two53_plus_one: "round64 9007199254740993 = Finite 9007199254740992"
  by code_simp

lemma round64_2: "round64 2 = Finite 2"
  using round64_int[of 2] by simp

section \<open>Facts about the handlers and the engine calls\<close>

lemmas demo_defs =
  demo_env_def demo_props_def demo_engine_def demo_next_def demo_exit_def demo_items_def
  demo_step0_def demo_step1_def transition_def demo_advance_def demo_undo_def demo_rest_def

lemmas model_defs =
  constructor_def installIntroJs_def configureIntroJs_def renderSteps_def engine_call_def
  onStart_call_def componentDidMount_def componentDidUpdate_def componentWillUnmount_def
  mergedOptions_def sanitizedSteps_def sanitize_def runTimer_def round64_2

lemmas relay_defs =
  onExit_relay_def onBeforeExit_relay_def onBeforeChange_relay_def
  onAfterChange_relay_def onChange_relay_def onComplete_relay_def
  emit_def setVisible_def setTimeout_def

lemma dispatch_ok:
  assumes "introJs w = Some e"
  shows "\<exists>r w' l. dispatch ev w = Inr (r, w') \<and> introJs w' = Some e \<and> props w' = props w
           \<and> isConfigured w' = isConfigured w \<and> trace w' = trace w @ l
           \<and> list_all relay_effect l \<and> (isVisible w' \<longrightarrow> isVisible w)"
  using assms
  by (cases ev) (auto simp: relay_defs Let_def split: option.splits)

lemma run_ok:
  "introJs w \<noteq> None \<Longrightarrow>
   \<exists>w' l. run s w = Inr w' \<and> introJs w' \<noteq> None \<and> props w' = props w
           \<and> isConfigured w' = isConfigured w \<and> trace w' = trace w @ l
           \<and> list_all relay_effect l \<and> (isVisible w' \<longrightarrow> isVisible w)"
proof (induction s arbitrary: w)
  case Done
  then show ?case by simp
next
  case (Fire ev k)
  from Fire.prems obtain e where e: "introJs w = Some e" by auto
  from dispatch_ok[OF e, of ev] obtain r w1 l1 where
    d: "dispatch ev w = Inr (r, w1)" "introJs w1 = Some e" "props w1 = props w"
       "isConfigured w1 = isConfigured w" "trace w1 = trace w @ l1"
       "list_all relay_effect l1" "isVisible w1 \<longrightarrow> isVisible w"
    by blast
  have "k r \<in> range k" by simp
  from Fire.IH[OF this, of w1] d(2) obtain w' l where
    r: "run (k r) w1 = Inr w'" "introJs w' \<noteq> None" "props w' = props w1"
       "isConfigured w' = isConfigured w1" "trace w' = trace w1 @ l"
       "list_all relay_effect l" "isVisible w' \<longrightarrow> isVisible w1"
    by auto
  show ?case
    using d r by (intro exI[of _ w'] exI[of _ "l1 @ l"]) simp
next
  case (Modify f s)
  from Modify.prems have "introJs (w\<lparr>introJs := map_option f (introJs w)\<rparr>) \<noteq> None" by simp
  from Modify.IH[OF this] show ?case by simp
qed

lemma engine_call_ok:
  assumes "introJs w \<noteq> None"
  shows "\<exists>w' l. engine_call eff m w = Inr w' \<and> introJs w' \<noteq> None \<and> props w' = props w
           \<and> isConfigured w' = isConfigured w \<and> trace w' = trace w @ [eff] @ l
           \<and> list_all relay_effect l \<and> (isVisible w' \<longrightarrow> isVisible w)"
proof -
  from assms obtain e where e: "introJs w = Some e" by auto
  have "introJs (emit eff w) \<noteq> None" using e by (simp add: emit_def)
  from run_ok[OF this, of "m e"] show ?thesis
    using e by (auto simp: engine_call_def emit_def)
qed

lemma fired_hidden:
  "introJs w \<noteq> None \<Longrightarrow> \<not> isVisible w \<Longrightarrow> (ev, wh) \<in> set (fired s w) \<Longrightarrow> \<not> isVisible wh"
proof (induction s arbitrary: w)
  case Done
  then show ?case by simp
next
  case (Fire ev1 k)
  from Fire.prems(1) obtain e where e: "introJs w = Some e" by auto
  from dispatch_ok[OF e, of ev1] obtain r w1 where
    d: "dispatch ev1 w = Inr (r, w1)" "introJs w1 = Some e" "isVisible w1 \<longrightarrow> isVisible w"
    by blast
  from Fire.prems(3) d(1) have "(ev, wh) = (ev1, w) \<or> (ev, wh) \<in> set (fired (k r) w1)"
    by simp
  then show ?case
  proof
    assume "(ev, wh) = (ev1, w)"
    with Fire.prems(2) show ?thesis by simp
  next
    assume m: "(ev, wh) \<in> set (fired (k r) w1)"
    have "k r \<in> range k" by simp
    from Fire.IH[OF this _ _ m] d Fire.prems(2) show ?thesis by simp
  qed
next
  case (Modify f s)
  from Modify.prems Modify.IH[of "w\<lparr>introJs := map_option f (introJs w)\<rparr>"]
  show ?case by simp
qed

lemma relay_not_start: "list_all relay_effect l \<Longrightarrow> EngineStart \<notin> set l"
  by (induction l) auto

lemma relay_not_setOptions: "list_all relay_effect l \<Longrightarrow> configure_runs l = 0"
  unfolding configure_runs_def
proof (induction l)
  case Nil
  then show ?case by simp
next
  case (Cons x xs)
  then show ?case by (cases x) auto
qed

lemma configure_runs_append: "configure_runs (l1 @ l2) = configure_runs l1 + configure_runs l2"
  by (simp add: configure_runs_def)

lemma dispatch_keeps:
  assumes "dispatch ev w = Inr (r, w')"
  shows "props w' = props w \<and> isConfigured w' = isConfigured w \<and> introJs w' = introJs w
         \<and> (\<exists>l. trace w' = trace w @ l \<and> list_all relay_effect l)
         \<and> (isVisible w' \<longrightarrow> isVisible w)"
  using assms
  by (cases ev) (auto simp: relay_defs Let_def split: option.splits if_splits)

lemma run_keeps:
  "run s w = Inr w' \<Longrightarrow>
     props w' = props w \<and> isConfigured w' = isConfigured w
     \<and> (\<exists>l. trace w' = trace w @ l \<and> list_all relay_effect l)
     \<and> (isVisible w' \<longrightarrow> isVisible w)"
proof (induction s arbitrary: w)
  case Done
  then show ?case by auto
next
  case (Fire ev k)
  from Fire.prems obtain r w1 where
    d: "dispatch ev w = Inr (r, w1)" and r: "run (k r) w1 = Inr w'"
    by (auto split: sum.splits)
  from dispatch_keeps[OF d] obtain l1 where
    k1: "props w1 = props w" "isConfigured w1 = isConfigured w"
        "trace w1 = trace w @ l1" "list_all relay_effect l1" "isVisible w1 \<longrightarrow> isVisible w"
    by blast
  have "k r \<in> range k" by simp
  from Fire.IH[OF this r] obtain l2 where
    k2: "props w' = props w1" "isConfigured w' = isConfigured w1"
        "trace w' = trace w1 @ l2" "list_all relay_effect l2" "isVisible w' \<longrightarrow> isVisible w1"
    by blast
  have "trace w' = trace w @ (l1 @ l2)" "list_all relay_effect (l1 @ l2)"
    using k1 k2 by simp_all
  then show ?case using k1 k2 by auto
next
  case (Modify f s)
  from Modify.prems have "run s (w\<lparr>introJs := map_option f (introJs w)\<rparr>) = Inr w'" by simp
  from Modify.IH[OF this] show ?case by simp
qed

lemma engine_call_keeps:
  assumes "engine_call eff m w = Inr w'"
  shows "props w' = props w \<and> isConfigured w' = isConfigured w
         \<and> (\<exists>l. trace w' = trace w @ [eff] @ l \<and> list_all relay_effect l)
         \<and> (isVisible w' \<longrightarrow> isVisible w)"
proof -
  from assms obtain e where "introJs w = Some e" and "run (m e) (emit eff w) = Inr w'"
    by (auto simp: engine_call_def split: option.splits)
  from run_keeps[OF this(2)] show ?thesis by (simp add: emit_def)
qed

lemma configure_keeps:
  assumes "configureIntroJs X w = Inr w'"
  shows "props w' = props w \<and> isConfigured w' \<and> isVisible w' = isVisible w
         \<and> trace w' = trace w @ [EngineSetOptions (mergedOptions X (props w))]"
  using assms by (auto simp: configureIntroJs_def emit_def split: option.splits)

lemma configure_ok:
  assumes "introJs w \<noteq> None"
  shows "\<exists>w'. configureIntroJs X w = Inr w' \<and> introJs w' \<noteq> None"
  using assms by (auto simp: configureIntroJs_def)

lemma renderSteps_keeps:
  assumes "renderSteps X w = Inr w'"
  shows "props w' = props w \<and> isConfigured w' = isConfigured w
         \<and> (\<exists>l. trace w' = trace w @ l \<and> configure_runs l = 0
                \<and> (steps (props w) = [] \<longrightarrow> EngineStart \<notin> set l))"
proof -
  consider (start) "enabled (props w) \<and> steps (props w) \<noteq> [] \<and> \<not> isVisible w"
    | (stop) "\<not> (enabled (props w) \<and> steps (props w) \<noteq> [] \<and> \<not> isVisible w)"
             "\<not> enabled (props w) \<and> isVisible w"
    | (none) "\<not> (enabled (props w) \<and> steps (props w) \<noteq> [] \<and> \<not> isVisible w)"
             "\<not> (\<not> enabled (props w) \<and> isVisible w)"
    by blast
  then show ?thesis
  proof cases
    case start
    let ?n = "js_add (initialStep (props w)) (Finite 1)"
    from assms start obtain w1 w2 where
      s: "engine_call EngineStart (lib_start X) w = Inr w1"
      and g: "engine_call (EngineGoToStepNumber ?n) (lib_goToStepNumber X ?n) (setVisible True w1) = Inr w2"
      and c: "onStart_call w2 = Inr w'"
      by (auto simp: renderSteps_def split: sum.splits)
    from engine_call_keeps[OF s] obtain l1 where
      k1: "props w1 = props w" "isConfigured w1 = isConfigured w"
          "trace w1 = trace w @ [EngineStart] @ l1" "list_all relay_effect l1"
      by blast
    from engine_call_keeps[OF g] obtain l2 where
      k2: "props w2 = props w1" "isConfigured w2 = isConfigured w1"
          "trace w2 = trace w1 @ [SetVisible True, EngineGoToStepNumber ?n] @ l2"
          "list_all relay_effect l2"
      by (auto simp: setVisible_def emit_def)
    from c obtain l3 where
      k3: "props w' = props w2" "isConfigured w' = isConfigured w2"
          "trace w' = trace w2 @ l3" "configure_runs l3 = 0"
      by (auto simp: onStart_call_def emit_def configure_runs_def split: if_splits option.splits)
    let ?l = "[EngineStart] @ l1 @ [SetVisible True, EngineGoToStepNumber ?n] @ l2 @ l3"
    have "trace w' = trace w @ ?l" using k1 k2 k3 by simp
    moreover have "configure_runs ?l = 0"
      using relay_not_setOptions[OF k1(4)] relay_not_setOptions[OF k2(4)] k3(4)
      by (simp add: configure_runs_append) (simp add: configure_runs_def)
    ultimately show ?thesis using k1 k2 k3 start by auto
  next
    case stop
    with assms have x: "engine_call EngineExit (lib_exit X) (setVisible False w) = Inr w'"
      by (simp add: renderSteps_def)
    from engine_call_keeps[OF x] obtain l where
      k: "props w' = props w" "isConfigured w' = isConfigured w"
         "trace w' = trace w @ [SetVisible False, EngineExit] @ l" "list_all relay_effect l"
      by (auto simp: setVisible_def emit_def)
    have "configure_runs ([SetVisible False, EngineExit] @ l) = 0"
      using relay_not_setOptions[OF k(4)]
      by (simp add: configure_runs_append) (simp add: configure_runs_def)
    moreover have "EngineStart \<notin> set ([SetVisible False, EngineExit] @ l)"
      using relay_not_start[OF k(4)] by simp
    ultimately show ?thesis using k by blast
  next
    case none
    with assms have "w' = w" by (simp add: renderSteps_def)
    then show ?thesis by (simp add: configure_runs_def)
  qed
qed

lemma renderSteps_ok:
  assumes "introJs w \<noteq> None"
  shows "\<exists>w'. renderSteps X w = Inr w' \<and> introJs w' \<noteq> None"
proof -
  let ?n = "js_add (initialStep (props w)) (Finite 1)"
  from engine_call_ok[OF assms, of EngineStart "lib_start X"] obtain w1 where
    s: "engine_call EngineStart (lib_start X) w = Inr w1" "introJs w1 \<noteq> None" by blast
  have "introJs (setVisible True w1) \<noteq> None" using s(2) by (simp add: setVisible_def emit_def)
  from engine_call_ok[OF this, of "EngineGoToStepNumber ?n" "lib_goToStepNumber X ?n"]
  obtain w2 where
    g: "engine_call (EngineGoToStepNumber ?n) (lib_goToStepNumber X ?n) (setVisible True w1) = Inr w2"
       "introJs w2 \<noteq> None" by blast
  have c: "\<exists>w3. onStart_call w2 = Inr w3 \<and> introJs w3 \<noteq> None"
    using g(2) by (auto simp: onStart_call_def emit_def)
  have "introJs (setVisible False w) \<noteq> None" using assms by (simp add: setVisible_def emit_def)
  from engine_call_ok[OF this, of EngineExit "lib_exit X"] obtain w4 where
    x: "engine_call EngineExit (lib_exit X) (setVisible False w) = Inr w4" "introJs w4 \<noteq> None"
    by blast
  show ?thesis using s g c x assms by (auto simp: renderSteps_def)
qed

lemma didMount_keeps:
  assumes "componentDidMount X w = Inr w'"
  shows "props w' = props w \<and> (isConfigured w \<longrightarrow> isConfigured w')
         \<and> (\<exists>l. trace w' = trace w @ l
                \<and> configure_runs l = (if enabled (props w) then 1 else 0)
                \<and> (steps (props w) = [] \<longrightarrow> EngineStart \<notin> set l))"
proof (cases "enabled (props w)")
  case True
  with assms obtain w1 where c: "configureIntroJs X w = Inr w1" and r: "renderSteps X w1 = Inr w'"
    by (auto simp: componentDidMount_def split: sum.splits)
  from configure_keeps[OF c] have
    k1: "props w1 = props w" "isConfigured w1"
        "trace w1 = trace w @ [EngineSetOptions (mergedOptions X (props w))]"
    by simp_all
  from renderSteps_keeps[OF r] obtain l where
    k2: "props w' = props w1" "isConfigured w' = isConfigured w1" "trace w' = trace w1 @ l"
        "configure_runs l = 0" "steps (props w1) = [] \<longrightarrow> EngineStart \<notin> set l"
    by blast
  let ?l = "[EngineSetOptions (mergedOptions X (props w))] @ l"
  have "trace w' = trace w @ ?l" using k1 k2 by simp
  moreover have "configure_runs ?l = 1"
    using k2(4) by (simp add: configure_runs_append) (simp add: configure_runs_def)
  moreover have "steps (props w) = [] \<longrightarrow> EngineStart \<notin> set ?l"
    using k2(5) k1(1) by simp
  ultimately show ?thesis using True k1 k2 by auto
next
  case False
  with assms have "w' = w" by (simp add: componentDidMount_def)
  with False show ?thesis by (simp add: configure_runs_def)
qed

lemma didUpdate_keeps:
  assumes "componentDidUpdate X prevProps w = Inr w'"
  shows "props w' = props w \<and> isConfigured w'
         \<and> (\<exists>l. trace w' = trace w @ l
                \<and> configure_runs l =
                    (if \<not> isConfigured w \<or> stepsRef prevProps \<noteq> stepsRef (props w)
                        \<or> optionsRef prevProps \<noteq> optionsRef (props w) then 1 else 0)
                \<and> (steps (props w) = [] \<longrightarrow> EngineStart \<notin> set l))"
proof -
  let ?c = "\<not> isConfigured w \<or> stepsRef prevProps \<noteq> stepsRef (props w)
              \<or> optionsRef prevProps \<noteq> optionsRef (props w)"
  have first: "\<exists>w2 l. (if ?c then (case configureIntroJs X w of Inl err \<Rightarrow> Inl err
                                   | Inr w1 \<Rightarrow> renderSteps X w1) else Inr w) = Inr w2
        \<and> (if enabled prevProps \<noteq> enabled (props w) then renderSteps X w2 else Inr w2) = Inr w'
        \<and> props w2 = props w \<and> isConfigured w2 \<and> trace w2 = trace w @ l
        \<and> configure_runs l = (if ?c then 1 else 0)
        \<and> (steps (props w) = [] \<longrightarrow> EngineStart \<notin> set l)"
  proof (cases ?c)
    case True
    with assms obtain w1 w2 where c: "configureIntroJs X w = Inr w1"
      and r: "renderSteps X w1 = Inr w2"
      and n: "(if enabled prevProps \<noteq> enabled (props w) then renderSteps X w2 else Inr w2) = Inr w'"
      by (auto simp: componentDidUpdate_def split: sum.splits)
    from configure_keeps[OF c] have
      k1: "props w1 = props w" "isConfigured w1"
          "trace w1 = trace w @ [EngineSetOptions (mergedOptions X (props w))]"
      by simp_all
    from renderSteps_keeps[OF r] obtain l where
      k2: "props w2 = props w1" "isConfigured w2 = isConfigured w1" "trace w2 = trace w1 @ l"
          "configure_runs l = 0" "steps (props w1) = [] \<longrightarrow> EngineStart \<notin> set l"
      by blast
    let ?l = "[EngineSetOptions (mergedOptions X (props w))] @ l"
    have "trace w2 = trace w @ ?l" using k1 k2 by simp
    moreover have "configure_runs ?l = 1"
      using k2(4) by (simp add: configure_runs_append) (simp add: configure_runs_def)
    moreover have "steps (props w) = [] \<longrightarrow> EngineStart \<notin> set ?l"
      using k2(5) k1(1) by simp
    ultimately show ?thesis using True c r n k1 k2 by (intro exI[of _ w2] exI[of _ ?l]) simp
  next
    case False
    with assms have
      "(if enabled prevProps \<noteq> enabled (props w) then renderSteps X w else Inr w) = Inr w'"
      by (simp add: componentDidUpdate_def)
    with False show ?thesis
      by (intro exI[of _ w] exI[of _ "[]"]) (simp add: configure_runs_def)
  qed
  then obtain w2 l where
    n: "(if enabled prevProps \<noteq> enabled (props w) then renderSteps X w2 else Inr w2) = Inr w'"
    and k: "props w2 = props w" "isConfigured w2" "trace w2 = trace w @ l"
       "configure_runs l = (if ?c then 1 else 0)"
       "steps (props w) = [] \<longrightarrow> EngineStart \<notin> set l"
    by blast
  show ?thesis
  proof (cases "enabled prevProps \<noteq> enabled (props w)")
    case True
    with n have r: "renderSteps X w2 = Inr w'" by simp
    from renderSteps_keeps[OF r] obtain l2 where
      k2: "props w' = props w2" "isConfigured w' = isConfigured w2" "trace w' = trace w2 @ l2"
          "configure_runs l2 = 0" "steps (props w2) = [] \<longrightarrow> EngineStart \<notin> set l2"
      by blast
    have "trace w' = trace w @ (l @ l2)" using k k2 by simp
    moreover have "configure_runs (l @ l2) = (if ?c then 1 else 0)"
      using k(4) k2(4) by (simp add: configure_runs_append)
    moreover have "steps (props w) = [] \<longrightarrow> EngineStart \<notin> set (l @ l2)"
      using k(1,5) k2(5) by simp
    ultimately show ?thesis using k k2 by (intro conjI exI[of _ "l @ l2"]) simp_all
  next
    case False
    with n have "w' = w2" by simp
    with k show ?thesis by (intro conjI exI[of _ l]) simp_all
  qed
qed

lemma didMount_ok:
  assumes "introJs w \<noteq> None"
  shows "\<exists>w'. componentDidMount X w = Inr w' \<and> introJs w' \<noteq> None"
proof -
  from configure_ok[OF assms] obtain w1 where
    c: "configureIntroJs X w = Inr w1" "introJs w1 \<noteq> None" by blast
  from renderSteps_ok[OF c(2)] obtain w2 where "renderSteps X w1 = Inr w2" "introJs w2 \<noteq> None"
    by blast
  with c assms show ?thesis by (auto simp: componentDidMount_def)
qed

lemma didUpdate_ok:
  assumes "introJs w \<noteq> None"
  shows "\<exists>w'. componentDidUpdate X prevProps w = Inr w' \<and> introJs w' \<noteq> None"
proof -
  let ?c = "\<not> isConfigured w \<or> stepsRef prevProps \<noteq> stepsRef (props w)
              \<or> optionsRef prevProps \<noteq> optionsRef (props w)"
  from configure_ok[OF assms] obtain w1 where
    c: "configureIntroJs X w = Inr w1" "introJs w1 \<noteq> None" by blast
  from renderSteps_ok[OF c(2)] obtain w2 where
    r: "renderSteps X w1 = Inr w2" "introJs w2 \<noteq> None" by blast
  have "\<exists>w3. (if ?c then (case configureIntroJs X w of Inl err \<Rightarrow> Inl err
                          | Inr w1 \<Rightarrow> renderSteps X w1) else Inr w) = Inr w3
             \<and> introJs w3 \<noteq> None"
    using c r assms by auto
  then obtain w3 where
    f: "(if ?c then (case configureIntroJs X w of Inl err \<Rightarrow> Inl err
                          | Inr w1 \<Rightarrow> renderSteps X w1) else Inr w) = Inr w3"
       "introJs w3 \<noteq> None" by blast
  from renderSteps_ok[OF f(2)] obtain w4 where
    "renderSteps X w3 = Inr w4" "introJs w4 \<noteq> None" by blast
  with f show ?thesis by (auto simp: componentDidUpdate_def)
qed

lemma exec_keeps:
  assumes "exec X a w = Inr w'"
  shows "(isConfigured w \<longrightarrow> isConfigured w')
         \<and> (steps (props w) = [] \<longrightarrow> (\<forall>p. a = Update p \<longrightarrow> steps p = []) \<longrightarrow>
              steps (props w') = [] \<and> (\<exists>l. trace w' = trace w @ l \<and> EngineStart \<notin> set l))"
proof (cases a)
  case Mount
  with assms have "componentDidMount X w = Inr w'" by simp
  from didMount_keeps[OF this] show ?thesis by auto
next
  case (Update p)
  with assms have "componentDidUpdate X (props w) (w\<lparr>props := p\<rparr>) = Inr w'" by simp
  from didUpdate_keeps[OF this] Update show ?thesis by auto
next
  case Unmount
  with assms have "engine_call EngineExit (lib_exit X) w = Inr w'"
    by (simp add: componentWillUnmount_def)
  from engine_call_keeps[OF this] obtain l where
    k: "props w' = props w" "isConfigured w' = isConfigured w"
    "trace w' = trace w @ [EngineExit] @ l" "list_all relay_effect l"
    by blast
  from k(4) have "EngineStart \<notin> set ([EngineExit] @ l)"
    using relay_not_start by simp
  with k(1,2,3) show ?thesis by auto
next
  case (EngineRuns s)
  with assms have "run s w = Inr w'" by simp
  from run_keeps[OF this] relay_not_start show ?thesis by auto
next
  case TimerFires
  with assms have "runTimer w = Inr w'" by simp
  then have "props w' = props w \<and> isConfigured w' = isConfigured w
             \<and> (\<exists>l. trace w' = trace w @ l \<and> EngineStart \<notin> set l)"
    by (auto simp: runTimer_def emit_def split: list.splits timer.splits option.splits)
  then show ?thesis by auto
next
  case (Rebind i)
  with assms have "updateStepElement X i w = Inr w'" by simp
  then have "props w' = props w \<and> isConfigured w' = isConfigured w \<and> trace w' = trace w"
    by (auto simp: updateStepElement_def split: option.splits sum.splits if_splits)
  then show ?thesis by auto
qed

lemma execs_Cons_Inr:
  "execs X (a # ops) w = Inr w' \<Longrightarrow> \<exists>w1. exec X a w = Inr w1 \<and> execs X ops w1 = Inr w'"
  by (cases "exec X a w") simp_all

lemma execs_keeps:
  "execs X ops w = Inr w' \<Longrightarrow>
     (isConfigured w \<longrightarrow> isConfigured w')
     \<and> (steps (props w) = [] \<longrightarrow> (\<forall>p. Update p \<in> set ops \<longrightarrow> steps p = []) \<longrightarrow>
          EngineStart \<notin> set (trace w) \<longrightarrow>
          steps (props w') = [] \<and> EngineStart \<notin> set (trace w'))"
proof (induction ops arbitrary: w)
  case Nil
  then show ?case by simp
next
  case (Cons a ops)
  from execs_Cons_Inr[OF Cons.prems] obtain w1 where
    a: "exec X a w = Inr w1" and r: "execs X ops w1 = Inr w'"
    by blast
  note e = exec_keeps[OF a]
  note ih = Cons.IH[OF r]
  have c: "isConfigured w \<longrightarrow> isConfigured w'" using e ih by simp
  have "steps (props w') = [] \<and> EngineStart \<notin> set (trace w')"
    if h: "steps (props w) = []" "\<forall>p. Update p \<in> set (a # ops) \<longrightarrow> steps p = []"
      "EngineStart \<notin> set (trace w)"
  proof -
    have "\<forall>p. a = Update p \<longrightarrow> steps p = []" using h(2) by simp
    with e h(1) have s1: "steps (props w1) = []"
      and "\<exists>l. trace w1 = trace w @ l \<and> EngineStart \<notin> set l"
      by simp_all
    then have t1: "EngineStart \<notin> set (trace w1)" using h(3) by auto
    have u: "\<forall>p. Update p \<in> set ops \<longrightarrow> steps p = []" using h(2) by simp
    from ih s1 t1 u show ?thesis by simp
  qed
  with c show ?case by simp
qed

lemma agrees_along_append:
  "agrees_along v t (l1 @ l2) = (agrees_along v t l1 \<and> agrees_along (foldl flag_after v l1) (foldl on_after t l1) l2)"
  by (induction l1 arbitrary: v t) auto

lemma agrees_along_prefix:
  "agrees_along v t l \<Longrightarrow> 0 < n \<Longrightarrow> n \<le> length l \<Longrightarrow>
     window (l ! (n - 1)) \<or> foldl flag_after v (take n l) = foldl on_after t (take n l)"
proof (induction l arbitrary: v t n)
  case Nil
  then show ?case by simp
next
  case (Cons x xs)
  show ?case
  proof (cases "n = 1")
    case True
    with Cons.prems show ?thesis by auto
  next
    case False
    with Cons.prems obtain m where m: "n = Suc m" "0 < m" "m \<le> length xs"
      by (cases n) auto
    from Cons.prems(1) have "agrees_along (flag_after v x) (on_after t x) xs" by simp
    from Cons.IH[OF this m(2,3)] m show ?thesis by (cases m) auto
  qed
qed

lemma settled_emit:
  assumes "settled w" and "\<And>b. flag_after b e = b" and "\<And>b. on_after b e = b"
  shows "settled (emit e w)"
  using assms by (simp add: settled_def emit_def vis_of_def tour_on_def agrees_along_append)

lemma settled_engine:
  assumes "settled w"
  shows "settled (w\<lparr>introJs := x\<rparr>)"
  using assms by (simp add: settled_def)

lemma dispatch_settled:
  assumes "dispatch ev w = Inr (r, w')" and "settled w"
  shows "settled w'"
proof (cases ev)
  case EvExit
  with assms(1) obtain e where "introJs w = Some e"
    and "w' = emit (CallOnExit (currentStep e)) (setVisible False w)"
    by (auto simp: onExit_relay_def setVisible_def emit_def Let_def split: option.splits)
  with assms(2) show ?thesis
    by (simp add: settled_def emit_def setVisible_def vis_of_def tour_on_def agrees_along_append)
next
  case EvBeforeExit
  with assms(1) have "w' = w \<or> (\<exists>c. w' = emit (CallOnBeforeExit c) w)"
    by (auto simp: onBeforeExit_relay_def split: option.splits)
  with assms(2) settled_emit show ?thesis by auto
next
  case (EvBeforeChange el)
  with assms(1) have
    "w' = w \<or> (\<exists>c. w' = emit (CallOnBeforeChange c el) w
                     \<or> w' = setTimeout PreventChangeTimer (emit (CallOnBeforeChange c el) w))"
    by (auto simp: onBeforeChange_relay_def Let_def split: option.splits if_splits)
  moreover have "settled (setTimeout t v)" if "settled v" for t v
    using that by (simp add: settled_def setTimeout_def)
  ultimately show ?thesis using assms(2) settled_emit by auto
next
  case (EvAfterChange el)
  with assms(1) have "w' = w \<or> (\<exists>c. w' = emit (CallOnAfterChange c el) w)"
    by (auto simp: onAfterChange_relay_def split: option.splits if_splits)
  with assms(2) settled_emit show ?thesis by auto
next
  case (EvChange el)
  with assms(1) have "w' = w \<or> (\<exists>c. w' = emit (CallOnChange c el) w)"
    by (auto simp: onChange_relay_def split: option.splits if_splits)
  with assms(2) settled_emit show ?thesis by auto
next
  case EvComplete
  with assms(1) have "w' = w \<or> w' = emit CallOnComplete w"
    by (auto simp: onComplete_relay_def split: if_splits)
  with assms(2) settled_emit show ?thesis by auto
qed

lemma run_settled: "run s w = Inr w' \<Longrightarrow> settled w \<Longrightarrow> settled w'"
proof (induction s arbitrary: w)
  case Done
  then show ?case by simp
next
  case (Fire ev k)
  from Fire.prems(1) obtain r w1 where
    d: "dispatch ev w = Inr (r, w1)" and r: "run (k r) w1 = Inr w'"
    by (auto split: sum.splits)
  have "k r \<in> range k" by simp
  from Fire.IH[OF this r dispatch_settled[OF d Fire.prems(2)]] show ?case .
next
  case (Modify f s)
  from Modify.prems(1) have "run s (w\<lparr>introJs := map_option f (introJs w)\<rparr>) = Inr w'" by simp
  from Modify.IH[OF this settled_engine[OF Modify.prems(2)]] show ?case .
qed

lemma dispatch_quiet:
  assumes "is_change ev" and "\<not> isVisible w" and "dispatch ev w = Inr (r, w')"
  shows "w' = w"
  using assms
  by (cases ev) (auto simp: onBeforeChange_relay_def onAfterChange_relay_def onChange_relay_def)

lemma run_quiet:
  "change_only s \<Longrightarrow> \<not> isVisible w \<Longrightarrow> run s w = Inr w' \<Longrightarrow>
     trace w' = trace w \<and> isVisible w' = isVisible w"
proof (induction s arbitrary: w)
  case Done
  then show ?case by auto
next
  case (Fire ev k)
  from Fire.prems(3) obtain r w1 where
    d: "dispatch ev w = Inr (r, w1)" and r: "run (k r) w1 = Inr w'"
    by (auto split: sum.splits)
  from Fire.prems(1) have c: "is_change ev" "change_only (k r)" by simp_all
  from dispatch_quiet[OF c(1) Fire.prems(2) d] have e: "w1 = w" .
  have "k r \<in> range k" by simp
  from Fire.IH[OF this c(2) _ r] e Fire.prems(2) show ?case by simp
next
  case (Modify f s)
  from Modify.prems have "change_only s" "\<not> isVisible (w\<lparr>introJs := map_option f (introJs w)\<rparr>)"
    "run s (w\<lparr>introJs := map_option f (introJs w)\<rparr>) = Inr w'"
    by simp_all
  from Modify.IH[OF this] show ?case by simp
qed

lemma engine_call_settled:
  assumes "engine_call eff m w = Inr w'" and "settled (emit eff w)"
  shows "settled w'"
proof -
  from assms(1) obtain e where "run (m e) (emit eff w) = Inr w'"
    by (auto simp: engine_call_def split: option.splits)
  from run_settled[OF this assms(2)] show ?thesis .
qed

lemma renderSteps_settled:
  assumes "renderSteps X w = Inr w'" and "settled w" and "\<forall>e. change_only (lib_start X e)"
  shows "settled w'"
proof -
  consider (start) "enabled (props w) \<and> steps (props w) \<noteq> [] \<and> \<not> isVisible w"
    | (stop) "\<not> (enabled (props w) \<and> steps (props w) \<noteq> [] \<and> \<not> isVisible w)"
             "\<not> enabled (props w) \<and> isVisible w"
    | (none) "\<not> (enabled (props w) \<and> steps (props w) \<noteq> [] \<and> \<not> isVisible w)"
             "\<not> (\<not> enabled (props w) \<and> isVisible w)"
    by blast
  then show ?thesis
  proof cases
    case start
    let ?n = "js_add (initialStep (props w)) (Finite 1)"
    from assms(1) start obtain w1 w2 where
      s: "engine_call EngineStart (lib_start X) w = Inr w1"
      and g: "engine_call (EngineGoToStepNumber ?n) (lib_goToStepNumber X ?n) (setVisible True w1) = Inr w2"
      and c: "onStart_call w2 = Inr w'"
      by (auto simp: renderSteps_def split: sum.splits)
    from s obtain e where e: "introJs w = Some e"
      and r: "run (lib_start X e) (emit EngineStart w) = Inr w1"
      by (auto simp: engine_call_def split: option.splits)
    have "\<not> isVisible (emit EngineStart w)" using start by (simp add: emit_def)
    from run_quiet[OF _ this r] assms(3) have
      q: "trace w1 = trace w @ [EngineStart]" "\<not> isVisible w1"
      using start by (simp_all add: emit_def)
    have "settled (emit (EngineGoToStepNumber ?n) (setVisible True w1))"
      using assms(2) q
      by (simp add: settled_def emit_def setVisible_def vis_of_def tour_on_def agrees_along_append)
    from engine_call_settled[OF g this] have i2: "settled w2" .
    from c have "w' = w2 \<or> (\<exists>x. w' = emit (CallOnStart x) w2)"
      by (auto simp: onStart_call_def split: if_splits option.splits)
    with i2 settled_emit show ?thesis by auto
  next
    case stop
    with assms(1) have x: "engine_call EngineExit (lib_exit X) (setVisible False w) = Inr w'"
      by (simp add: renderSteps_def)
    have "settled (emit EngineExit (setVisible False w))"
      using assms(2)
      by (simp add: settled_def emit_def setVisible_def vis_of_def tour_on_def agrees_along_append)
    from engine_call_settled[OF x this] show ?thesis .
  next
    case none
    with assms(1) have "w' = w" by (simp add: renderSteps_def)
    with assms(2) show ?thesis by simp
  qed
qed

lemma configure_settled:
  assumes "configureIntroJs X w = Inr w'" and "settled w"
  shows "settled w'"
proof -
  from assms(1) obtain e where
    "w' = (emit (EngineSetOptions (mergedOptions X (props w))) w)
            \<lparr>introJs := Some (lib_setOptions X (mergedOptions X (props w)) e),
             isConfigured := True\<rparr>"
    by (auto simp: configureIntroJs_def split: option.splits)
  moreover have "settled (emit (EngineSetOptions (mergedOptions X (props w))) w)"
    using assms(2) by (rule settled_emit) simp_all
  ultimately show ?thesis by (simp add: settled_def)
qed

lemma configure_render_settled:
  assumes "(case configureIntroJs X w of Inl err \<Rightarrow> Inl err | Inr w1 \<Rightarrow> renderSteps X w1) = Inr w'"
    and "settled w" and "\<forall>e. change_only (lib_start X e)"
  shows "settled w'"
proof -
  from assms(1) obtain w1 where c: "configureIntroJs X w = Inr w1" and r: "renderSteps X w1 = Inr w'"
    by (auto split: sum.splits)
  from renderSteps_settled[OF r configure_settled[OF c assms(2)] assms(3)] show ?thesis .
qed

lemma didMount_settled:
  assumes "componentDidMount X w = Inr w'" and "settled w" and "\<forall>e. change_only (lib_start X e)"
  shows "settled w'"
proof (cases "enabled (props w)")
  case True
  with assms(1) have
    "(case configureIntroJs X w of Inl err \<Rightarrow> Inl err | Inr w1 \<Rightarrow> renderSteps X w1) = Inr w'"
    by (simp add: componentDidMount_def)
  from configure_render_settled[OF this assms(2,3)] show ?thesis .
next
  case False
  with assms(1) have "w' = w" by (simp add: componentDidMount_def)
  with assms(2) show ?thesis by simp
qed

lemma didUpdate_settled:
  assumes "componentDidUpdate X prevProps w = Inr w'" and "settled w"
    and "\<forall>e. change_only (lib_start X e)"
  shows "settled w'"
proof -
  let ?c = "\<not> isConfigured w \<or> stepsRef prevProps \<noteq> stepsRef (props w)
              \<or> optionsRef prevProps \<noteq> optionsRef (props w)"
  from assms(1) obtain w2 where
    f: "(if ?c then (case configureIntroJs X w of Inl err \<Rightarrow> Inl err
                     | Inr w1 \<Rightarrow> renderSteps X w1) else Inr w) = Inr w2"
    and n: "(if enabled prevProps \<noteq> enabled (props w) then renderSteps X w2 else Inr w2) = Inr w'"
    unfolding componentDidUpdate_def by (auto split: sum.splits)
  have i2: "settled w2"
  proof (cases ?c)
    case True
    with f have
      "(case configureIntroJs X w of Inl err \<Rightarrow> Inl err | Inr w1 \<Rightarrow> renderSteps X w1) = Inr w2"
      by simp
    from configure_render_settled[OF this assms(2,3)] show ?thesis .
  next
    case False
    with f have "w2 = w" by simp
    with assms(2) show ?thesis by simp
  qed
  show ?thesis
  proof (cases "enabled prevProps \<noteq> enabled (props w)")
    case True
    with n have "renderSteps X w2 = Inr w'" by simp
    from renderSteps_settled[OF this i2 assms(3)] show ?thesis .
  next
    case False
    with n have "w' = w2" by simp
    with i2 show ?thesis by simp
  qed
qed

lemma exec_settled:
  assumes "exec X a w = Inr w'" and "settled w" and "\<forall>e. change_only (lib_start X e)"
    and "a \<noteq> Unmount"
  shows "settled w'"
proof (cases a)
  case Mount
  with assms(1) have "componentDidMount X w = Inr w'" by simp
  from didMount_settled[OF this assms(2,3)] show ?thesis .
next
  case (Update p)
  with assms(1) have u: "componentDidUpdate X (props w) (w\<lparr>props := p\<rparr>) = Inr w'" by simp
  have "settled (w\<lparr>props := p\<rparr>)" using assms(2) by (simp add: settled_def)
  from didUpdate_settled[OF u this assms(3)] show ?thesis .
next
  case Unmount
  with assms(4) show ?thesis by simp
next
  case (EngineRuns s)
  with assms(1) have "run s w = Inr w'" by simp
  from run_settled[OF this assms(2)] show ?thesis .
next
  case TimerFires
  with assms(1) have "runTimer w = Inr w'" by simp
  then have "w' = w \<or> (\<exists>c ts. w' = emit (CallOnPreventChange c) (w\<lparr>timers := ts\<rparr>))"
    by (auto simp: runTimer_def split: list.splits timer.splits option.splits)
  moreover have "settled (w\<lparr>timers := ts\<rparr>)" for ts using assms(2) by (simp add: settled_def)
  ultimately show ?thesis using assms(2) settled_emit by auto
next
  case (Rebind i)
  with assms(1) have "updateStepElement X i w = Inr w'" by simp
  then have "w' = w \<or> (\<exists>x. w' = w\<lparr>introJs := x\<rparr>)"
    by (auto simp: updateStepElement_def split: option.splits sum.splits if_splits)
  with assms(2) settled_engine show ?thesis by auto
qed

lemma execs_settled:
  "execs X ops w = Inr w' \<Longrightarrow> settled w \<Longrightarrow> \<forall>e. change_only (lib_start X e) \<Longrightarrow>
     Unmount \<notin> set ops \<Longrightarrow> settled w'"
proof (induction ops arbitrary: w)
  case Nil
  then show ?case by simp
next
  case (Cons a ops)
  from execs_Cons_Inr[OF Cons.prems(1)] obtain w1 where
    a: "exec X a w = Inr w1" and r: "execs X ops w1 = Inr w'"
    by blast
  from Cons.prems(4) have n: "a \<noteq> Unmount" "Unmount \<notin> set ops" by auto
  from exec_settled[OF a Cons.prems(2,3) n(1)] have "settled w1" .
  from Cons.IH[OF r this Cons.prems(3) n(2)] show ?case .
qed

lemma didMount_configured:
  assumes "componentDidMount X w = Inr w'"
  shows "isConfigured w' = (isConfigured w \<or> enabled (props w))"
proof (cases "enabled (props w)")
  case True
  with assms obtain w1 where c: "configureIntroJs X w = Inr w1" and r: "renderSteps X w1 = Inr w'"
    by (auto simp: componentDidMount_def split: sum.splits)
  from configure_keeps[OF c] renderSteps_keeps[OF r] True show ?thesis by simp
next
  case False
  with assms have "w' = w" by (simp add: componentDidMount_def)
  with False show ?thesis by simp
qed

lemma remdups_adj_length_pos: "0 < length (remdups_adj (x # xs))"
  by (cases xs) auto

lemma updates_count:
  "introJs w \<noteq> None \<Longrightarrow>
   \<exists>w'. execs X (map Update ps) w = Inr w'
     \<and> configure_runs (trace w') =
         configure_runs (trace w)
         + (if isConfigured w then length (remdups_adj (map ref_pair (props w # ps))) - 1
            else length (remdups_adj (map ref_pair ps)))"
proof (induction ps arbitrary: w)
  case Nil
  then show ?case by simp
next
  case (Cons p ps)
  let ?w0 = "w\<lparr>props := p\<rparr>"
  have "introJs ?w0 \<noteq> None" using Cons.prems by simp
  from didUpdate_ok[OF this, of X "props w"] obtain w1 where
    u: "componentDidUpdate X (props w) ?w0 = Inr w1" "introJs w1 \<noteq> None" by blast
  from didUpdate_keeps[OF u(1)] obtain l where
    k: "props w1 = p" "isConfigured w1" "trace w1 = trace w @ l"
       "configure_runs l =
          (if \<not> isConfigured w \<or> stepsRef (props w) \<noteq> stepsRef p
              \<or> optionsRef (props w) \<noteq> optionsRef p then 1 else 0)"
    by auto
  from Cons.IH[OF u(2)] obtain w' where
    r: "execs X (map Update ps) w1 = Inr w'"
       "configure_runs (trace w') =
          configure_runs (trace w1) + (length (remdups_adj (map ref_pair (p # ps))) - 1)"
    using k(1,2) by auto
  have x: "execs X (map Update (p # ps)) w = Inr w'" using u(1) r(1) by simp
  have pos: "0 < length (remdups_adj (ref_pair p # map ref_pair ps))"
    by (rule remdups_adj_length_pos)
  have eq: "(ref_pair (props w) = ref_pair p) =
              (stepsRef (props w) = stepsRef p \<and> optionsRef (props w) = optionsRef p)"
    by (simp add: ref_pair_def)
  have "configure_runs (trace w') =
         configure_runs (trace w)
         + (if isConfigured w then length (remdups_adj (map ref_pair (props w # p # ps))) - 1
            else length (remdups_adj (map ref_pair (p # ps))))"
  proof (cases "isConfigured w")
    case True
    show ?thesis
    proof (cases "ref_pair (props w) = ref_pair p")
      case same: True
      with eq have "configure_runs l = 0" using k(4) True by simp
      with r(2) k(3) True same show ?thesis by (simp add: configure_runs_append)
    next
      case diff: False
      with eq have "configure_runs l = 1" using k(4) True by auto
      with r(2) k(3) True diff pos show ?thesis by (simp add: configure_runs_append)
    qed
  next
    case False
    then have "configure_runs l = 1" using k(4) by simp
    with r(2) k(3) False pos show ?thesis by (simp add: configure_runs_append)
  qed
  with x show ?case by blast
qed

text \<open>Running every pending timer, the engine standing still meanwhile.\<close>

lemma timers_drain:
  "introJs w = Some e \<Longrightarrow>
   execs X (replicate (length (timers w)) TimerFires) w =
     Inr (w\<lparr>trace := trace w @ replicate (length (timers w)) (CallOnPreventChange (currentStep e)),
            timers := []\<rparr>)"
proof (induction "timers w" arbitrary: w)
  case Nil
  then show ?case by simp
next
  case (Cons t ts)
  let ?w1 = "emit (CallOnPreventChange (currentStep e)) (w\<lparr>timers := ts\<rparr>)"
  from Cons.hyps(2) have tw: "timers w = t # ts" by simp
  have r: "runTimer w = Inr ?w1"
    using tw Cons.prems by (cases t) (simp add: runTimer_def)
  have h: "ts = timers ?w1" "introJs ?w1 = Some e"
    using Cons.prems by (simp_all add: emit_def)
  from Cons.hyps(1)[OF h] have
    "execs X (replicate (length (timers ?w1)) TimerFires) ?w1 =
       Inr (?w1\<lparr>trace := trace ?w1
                     @ replicate (length (timers ?w1)) (CallOnPreventChange (currentStep e)),
               timers := []\<rparr>)" .
  moreover have "length (timers ?w1) = length ts" by (simp add: emit_def)
  ultimately have
    "execs X (replicate (length ts) TimerFires) ?w1 =
       Inr (?w1\<lparr>trace := trace ?w1 @ replicate (length ts) (CallOnPreventChange (currentStep e)),
               timers := []\<rparr>)"
    by simp
  then show ?case using r tw by (simp add: emit_def)
qed

subsection \<open>The sample component\<close>

lemma demo_visible_state:
  "isVisible demo_visible \<and> map_option currentStep (introJs demo_visible) = Some (Some 1)
   \<and> timers demo_visible = []
   \<and> trace demo_visible =
       [EngineSetOptions (mergedOptions demo_env (demo_props\<lparr>enabled := True\<rparr>)),
        EngineStart, SetVisible True, EngineGoToStepNumber (Finite 2),
        CallOnBeforeChange (Some 1) ''target'', CallOnChange (Some 1) ''target'',
        CallOnAfterChange (Some 1) ''target'', CallOnStart (Some 1)]"
  by (simp add: demo_visible_def model_defs demo_defs relay_defs)

lemma demo_visible_engine:
  "introJs demo_visible =
     Some \<lparr>currentStep = Some 1,
           engine_options = mergedOptions demo_env (demo_props\<lparr>enabled := True\<rparr>),
           introItems = [\<lparr>item_element = None, item_position = Some ''top''\<rparr>,
                         \<lparr>item_element = None, item_position = None\<rparr>]\<rparr>"
  by (simp add: demo_visible_def model_defs demo_defs relay_defs)

lemma demo_visible_props: "props demo_visible = demo_props\<lparr>enabled := True\<rparr>"
  by (simp add: demo_visible_def model_defs demo_defs relay_defs)

lemma demo_visible_configured: "isConfigured demo_visible"
  by (simp add: demo_visible_def model_defs demo_defs relay_defs)

section \<open>The claims\<close>

subsection \<open>C1: starting the tour\<close>

text \<open>
  C1, as the code has it. The claim as written gives goToStepNumber the argument
  initialStep + 1; the code adds JavaScript numbers, and at initialStep = 2^53 the sum is
  2^53 again (see the counterexample below).

  When the props say enabled, the steps are not empty and the flag isVisible is false,
  renderSteps runs the engine's start (the flag is still false when it returns), then
  sets isVisible to true, then runs the engine's goToStepNumber, with the flag set, on
  the double-precision sum of initialStep and 1, and then, when onStart was supplied,
  calls it with the engine's current step as goToStepNumber left it. Between these the
  trace holds only what the event handlers did while the engine's methods ran (\<open>l1\<close>,
  \<open>l2\<close>). The sum is exactly initialStep + 1 for every integer initialStep of magnitude
  below 2^53.
\<close>

theorem renderSteps_starts_in_order:
  assumes "enabled (props w)" and "steps (props w) \<noteq> []" and "\<not> isVisible w"
    and "introJs w = Some e"
  shows "(\<exists>w1 e1 w2 e2 l1 l2.
            run (lib_start X e) (w\<lparr>trace := trace w @ [EngineStart]\<rparr>) = Inr w1
          \<and> introJs w1 = Some e1 \<and> \<not> isVisible w1
          \<and> trace w1 = trace w @ [EngineStart] @ l1
          \<and> run (lib_goToStepNumber X (js_add (initialStep (props w)) (Finite 1)) e1)
                 (w1\<lparr>isVisible := True,
                     trace := trace w1 @ [SetVisible True,
                                EngineGoToStepNumber (js_add (initialStep (props w)) (Finite 1))]\<rparr>)
                = Inr w2
          \<and> introJs w2 = Some e2
          \<and> trace w2 =
                trace w1 @ [SetVisible True,
                            EngineGoToStepNumber (js_add (initialStep (props w)) (Finite 1))] @ l2
          \<and> list_all relay_effect l1 \<and> list_all relay_effect l2
          \<and> renderSteps X w =
                Inr (if onStart (props w)
                     then w2\<lparr>trace := trace w2 @ [CallOnStart (currentStep e2)]\<rparr>
                     else w2))
         \<and> (\<forall>k. \<bar>k\<bar> < 2 ^ 53 \<and> initialStep (props w) = Finite (of_int k) \<longrightarrow>
                js_add (initialStep (props w)) (Finite 1) = Finite (of_int (k + 1)))"
proof
  let ?n = "js_add (initialStep (props w)) (Finite 1)"
  let ?wa = "w\<lparr>trace := trace w @ [EngineStart]\<rparr>"
  have "introJs ?wa \<noteq> None" using assms(4) by simp
  from run_ok[OF this, of "lib_start X e"] obtain w1 l1 where
    s: "run (lib_start X e) ?wa = Inr w1" "introJs w1 \<noteq> None" "props w1 = props ?wa"
       "trace w1 = trace ?wa @ l1" "list_all relay_effect l1" "isVisible w1 \<longrightarrow> isVisible ?wa"
    by blast
  from s(2) obtain e1 where e1: "introJs w1 = Some e1" by auto
  have v1: "\<not> isVisible w1" using s(6) assms(3) by simp
  have t1: "trace w1 = trace w @ [EngineStart] @ l1" using s(4) by simp
  let ?wb = "w1\<lparr>isVisible := True, trace := trace w1 @ [SetVisible True, EngineGoToStepNumber ?n]\<rparr>"
  have "introJs ?wb \<noteq> None" using e1 by simp
  from run_ok[OF this, of "lib_goToStepNumber X ?n e1"] obtain w2 l2 where
    g: "run (lib_goToStepNumber X ?n e1) ?wb = Inr w2" "introJs w2 \<noteq> None"
       "props w2 = props ?wb" "trace w2 = trace ?wb @ l2" "list_all relay_effect l2"
    by blast
  from g(2) obtain e2 where e2: "introJs w2 = Some e2" by auto
  have p2: "props w2 = props w" using g(3) s(3) by simp
  have t2: "trace w2 = trace w1 @ [SetVisible True, EngineGoToStepNumber ?n] @ l2"
    using g(4) by simp
  have c1: "engine_call EngineStart (lib_start X) w = Inr w1"
    using assms(4) s(1) by (simp add: engine_call_def emit_def)
  have c2: "engine_call (EngineGoToStepNumber ?n) (lib_goToStepNumber X ?n) (setVisible True w1)
              = Inr w2"
    using e1 g(1) by (simp add: engine_call_def emit_def setVisible_def)
  have c3: "onStart_call w2 =
              Inr (if onStart (props w)
                   then w2\<lparr>trace := trace w2 @ [CallOnStart (currentStep e2)]\<rparr> else w2)"
    using e2 p2 by (simp add: onStart_call_def emit_def)
  have r: "renderSteps X w =
             Inr (if onStart (props w)
                  then w2\<lparr>trace := trace w2 @ [CallOnStart (currentStep e2)]\<rparr> else w2)"
    using assms(1-3) c1 c2 c3 by (simp add: renderSteps_def)
  show "\<exists>w1 e1 w2 e2 l1 l2.
            run (lib_start X e) (w\<lparr>trace := trace w @ [EngineStart]\<rparr>) = Inr w1
          \<and> introJs w1 = Some e1 \<and> \<not> isVisible w1
          \<and> trace w1 = trace w @ [EngineStart] @ l1
          \<and> run (lib_goToStepNumber X ?n e1)
                 (w1\<lparr>isVisible := True,
                     trace := trace w1 @ [SetVisible True, EngineGoToStepNumber ?n]\<rparr>)
                = Inr w2
          \<and> introJs w2 = Some e2
          \<and> trace w2 = trace w1 @ [SetVisible True, EngineGoToStepNumber ?n] @ l2
          \<and> list_all relay_effect l1 \<and> list_all relay_effect l2
          \<and> renderSteps X w =
                Inr (if onStart (props w)
                     then w2\<lparr>trace := trace w2 @ [CallOnStart (currentStep e2)]\<rparr>
                     else w2)"
    using s(1) e1 v1 t1 g(1) e2 t2 s(5) g(5) r by blast
next
  show "\<forall>k. \<bar>k\<bar> < 2 ^ 53 \<and> initialStep (props w) = Finite (of_int k) \<longrightarrow>
          js_add (initialStep (props w)) (Finite 1) = Finite (of_int (k + 1))"
    using js_add_one_exact by auto
qed

theorem renderSteps_starts_in_order_witness:
  "enabled (props (constructor demo_env (demo_props\<lparr>enabled := True\<rparr>)))
   \<and> steps (props (constructor demo_env (demo_props\<lparr>enabled := True\<rparr>))) \<noteq> []
   \<and> \<not> isVisible (constructor demo_env (demo_props\<lparr>enabled := True\<rparr>))
   \<and> introJs (constructor demo_env (demo_props\<lparr>enabled := True\<rparr>)) = Some demo_engine
   \<and> (\<exists>w1 e1 w2 e2 l1 l2.
         run (lib_start demo_env demo_engine)
             ((constructor demo_env (demo_props\<lparr>enabled := True\<rparr>))\<lparr>trace := [EngineStart]\<rparr>) = Inr w1
       \<and> introJs w1 = Some e1 \<and> \<not> isVisible w1 \<and> trace w1 = [EngineStart] @ l1
       \<and> run (lib_goToStepNumber demo_env (Finite 2) e1)
              (w1\<lparr>isVisible := True,
                  trace := trace w1 @ [SetVisible True, EngineGoToStepNumber (Finite 2)]\<rparr>) = Inr w2
       \<and> introJs w2 = Some e2
       \<and> trace w2 = trace w1 @ [SetVisible True, EngineGoToStepNumber (Finite 2)] @ l2
       \<and> list_all relay_effect l1 \<and> list_all relay_effect l2
       \<and> renderSteps demo_env (constructor demo_env (demo_props\<lparr>enabled := True\<rparr>)) =
            Inr (w2\<lparr>trace := trace w2 @ [CallOnStart (currentStep e2)]\<rparr>))
   \<and> trace_of (renderSteps demo_env (constructor demo_env (demo_props\<lparr>enabled := True\<rparr>))) =
       [EngineStart, SetVisible True, EngineGoToStepNumber (Finite 2),
        CallOnBeforeChange (Some 1) ''target'', CallOnChange (Some 1) ''target'',
        CallOnAfterChange (Some 1) ''target'', CallOnStart (Some 1)]"
proof -
  let ?w = "constructor demo_env (demo_props\<lparr>enabled := True\<rparr>)"
  have h: "enabled (props ?w)" "steps (props ?w) \<noteq> []" "\<not> isVisible ?w"
    "introJs ?w = Some demo_engine"
    by (simp_all add: constructor_def installIntroJs_def demo_env_def demo_props_def)
  have t: "trace ?w = []" "js_add (initialStep (props ?w)) (Finite 1) = Finite 2"
    "onStart (props ?w)"
    by (simp_all add: constructor_def installIntroJs_def demo_env_def demo_props_def round64_2)
  have v: "trace_of (renderSteps demo_env ?w) =
       [EngineStart, SetVisible True, EngineGoToStepNumber (Finite 2),
        CallOnBeforeChange (Some 1) ''target'', CallOnChange (Some 1) ''target'',
        CallOnAfterChange (Some 1) ''target'', CallOnStart (Some 1)]"
    by (simp add: trace_of_def model_defs demo_defs relay_defs Let_def)
  from renderSteps_starts_in_order[OF h, of demo_env] t h v show ?thesis by simp
qed

theorem renderSteps_step_number_counterexample:
  "take 3 (trace_of (renderSteps demo_env
              (constructor demo_env
                 (demo_props\<lparr>enabled := True, initialStep := Finite 9007199254740992\<rparr>)))) =
     [EngineStart, SetVisible True, EngineGoToStepNumber (Finite 9007199254740992)]
   \<and> Finite 9007199254740992 \<noteq> Finite (9007199254740992 + 1)
   \<and> (9007199254740992::rat) = 2 ^ 53"
  by (simp add: trace_of_def model_defs demo_defs relay_defs Let_def round64_two53_plus_one)

subsection \<open>C2: the flag and the history of starts and exits\<close>

text \<open>
  C2, as the code has it. The claim as written (at every point, isVisible is true
  exactly when the latest start has not been followed by an exit) fails inside
  renderSteps: after the engine's start has been called and before the flag is set, the
  start is the latest command and the flag is still false, which is what lets the gate
  absorb the events the start fires (see the counterexample below).

  What holds, for an engine whose start fires change events only and while the component
  is mounted: after every operation, isVisible is true exactly when the tour is on; and
  the same holds at every recorded point of the history but two windows, the one between
  the call of start and the assignment that follows it, and the one between the
  assignment of false and the exit call or onExit call that follows it. Every consumer
  callback lies outside the windows, so it finds the flag already updated.
\<close>

theorem visible_iff_started_outside_windows:
  assumes "\<forall>e. change_only (lib_start X e)" and "Unmount \<notin> set ops"
    and "execs X ops (constructor X p) = Inr w"
  shows "isVisible w = vis_of (trace w) \<and> isVisible w = tour_on (trace w)
         \<and> (\<forall>n. 0 < n \<and> n \<le> length (trace w) \<longrightarrow>
               window (trace w ! (n - 1))
               \<or> vis_of (take n (trace w)) = tour_on (take n (trace w)))"
proof -
  have "settled (constructor X p)"
    by (simp add: settled_def constructor_def installIntroJs_def vis_of_def tour_on_def)
  from execs_settled[OF assms(3) this assms(1,2)] have i: "settled w" .
  then have "agrees_along False False (trace w)" by (simp add: settled_def)
  from agrees_along_prefix[OF this] have
    "\<forall>n. 0 < n \<and> n \<le> length (trace w) \<longrightarrow>
               window (trace w ! (n - 1))
               \<or> vis_of (take n (trace w)) = tour_on (take n (trace w))"
    by (simp add: vis_of_def tour_on_def)
  with i show ?thesis by (simp add: settled_def)
qed

theorem visible_iff_started_outside_windows_witness:
  "(\<forall>e. change_only (lib_start demo_env e))
   \<and> Unmount \<notin> set [Mount, Update (demo_props\<lparr>enabled := True\<rparr>), EngineRuns demo_next,
                      TimerFires, EngineRuns demo_exit]
   \<and> (\<exists>w. execs demo_env
              [Mount, Update (demo_props\<lparr>enabled := True\<rparr>), EngineRuns demo_next,
               TimerFires, EngineRuns demo_exit]
              (constructor demo_env demo_props) = Inr w
         \<and> trace w =
             [EngineSetOptions (mergedOptions demo_env (demo_props\<lparr>enabled := True\<rparr>)),
              EngineStart, SetVisible True, EngineGoToStepNumber (Finite 2),
              CallOnBeforeChange (Some 1) ''target'', CallOnChange (Some 1) ''target'',
              CallOnAfterChange (Some 1) ''target'', CallOnStart (Some 1),
              CallOnBeforeChange (Some 2) ''target'', CallOnPreventChange (Some 1),
              SetVisible False, CallOnExit (Some 1)]
         \<and> \<not> isVisible w \<and> \<not> tour_on (trace w)
         \<and> (\<forall>n. 0 < n \<and> n \<le> length (trace w) \<longrightarrow>
               window (trace w ! (n - 1))
               \<or> vis_of (take n (trace w)) = tour_on (take n (trace w))))"
proof -
  let ?ops = "[Mount, Update (demo_props\<lparr>enabled := True\<rparr>), EngineRuns demo_next,
               TimerFires, EngineRuns demo_exit]"
  have c: "\<forall>e. change_only (lib_start demo_env e)"
    by (simp add: demo_env_def demo_next_def transition_def demo_rest_def)
  have u: "Unmount \<notin> set ?ops" by simp
  have "\<exists>w. execs demo_env ?ops (constructor demo_env demo_props) = Inr w
    \<and> trace w =
             [EngineSetOptions (mergedOptions demo_env (demo_props\<lparr>enabled := True\<rparr>)),
              EngineStart, SetVisible True, EngineGoToStepNumber (Finite 2),
              CallOnBeforeChange (Some 1) ''target'', CallOnChange (Some 1) ''target'',
              CallOnAfterChange (Some 1) ''target'', CallOnStart (Some 1),
              CallOnBeforeChange (Some 2) ''target'', CallOnPreventChange (Some 1),
              SetVisible False, CallOnExit (Some 1)]
    \<and> \<not> isVisible w"
    by (simp add: model_defs demo_defs relay_defs Let_def)
  then obtain w where x: "execs demo_env ?ops (constructor demo_env demo_props) = Inr w"
    and t: "trace w =
             [EngineSetOptions (mergedOptions demo_env (demo_props\<lparr>enabled := True\<rparr>)),
              EngineStart, SetVisible True, EngineGoToStepNumber (Finite 2),
              CallOnBeforeChange (Some 1) ''target'', CallOnChange (Some 1) ''target'',
              CallOnAfterChange (Some 1) ''target'', CallOnStart (Some 1),
              CallOnBeforeChange (Some 2) ''target'', CallOnPreventChange (Some 1),
              SetVisible False, CallOnExit (Some 1)]"
    and v: "\<not> isVisible w"
    by blast
  from visible_iff_started_outside_windows[OF c u x] v t c show ?thesis
    using x by (intro conjI exI[of _ w]) simp_all
qed

theorem visible_iff_started_counterexample:
  "engine_call EngineStart (lib_start demo_env)
      (constructor demo_env (demo_props\<lparr>enabled := True\<rparr>)) = Inr demo_started
   \<and> trace demo_started = [EngineStart]
   \<and> tour_on (trace demo_started)
   \<and> \<not> isVisible demo_started
   \<and> map fst (fired (lib_start demo_env demo_engine)
                 (emit EngineStart (constructor demo_env (demo_props\<lparr>enabled := True\<rparr>))))
       = [EvBeforeChange ''target'', EvChange ''target'', EvAfterChange ''target'']"
  by (simp add: demo_started_def model_defs demo_defs relay_defs tour_on_def)

subsection \<open>C3: the visibility gate of the relay\<close>

text \<open>
  C3. An event fired while isVisible is false: before-change returns true and calls no
  consumer callback, after-change and change return and call none (the component is left
  as it was). An exit event, whatever isVisible was, sets isVisible to false and then calls
  the consumer's onExit with the engine's current step.
\<close>

theorem hidden_events_absorbed_exit_forwarded:
  "(\<not> isVisible w \<longrightarrow>
      dispatch (EvBeforeChange el) w = Inr (JBool True, w)
      \<and> dispatch (EvAfterChange el) w = Inr (JUndefined, w)
      \<and> dispatch (EvChange el) w = Inr (JUndefined, w))
   \<and> (introJs w = Some e \<longrightarrow>
        dispatch EvExit w =
          Inr (JUndefined,
               w\<lparr>isVisible := False,
                 trace := trace w @ [SetVisible False, CallOnExit (currentStep e)]\<rparr>))"
  by (simp add: relay_defs)

theorem hidden_events_absorbed_exit_forwarded_witness:
  "\<not> isVisible (constructor demo_env demo_props)
   \<and> introJs (constructor demo_env demo_props) = Some demo_engine
   \<and> dispatch (EvBeforeChange ''target'') (constructor demo_env demo_props)
       = Inr (JBool True, constructor demo_env demo_props)
   \<and> dispatch (EvAfterChange ''target'') (constructor demo_env demo_props)
       = Inr (JUndefined, constructor demo_env demo_props)
   \<and> dispatch (EvChange ''target'') (constructor demo_env demo_props)
       = Inr (JUndefined, constructor demo_env demo_props)
   \<and> trace (snd (projr (dispatch EvExit (constructor demo_env demo_props))))
       = [SetVisible False, CallOnExit None]"
proof -
  have h: "\<not> isVisible (constructor demo_env demo_props)"
    "introJs (constructor demo_env demo_props) = Some demo_engine"
    by (simp_all add: constructor_def installIntroJs_def demo_env_def)
  have t: "trace (constructor demo_env demo_props) = []" "currentStep demo_engine = None"
    by (simp_all add: constructor_def installIntroJs_def demo_env_def demo_engine_def)
  from hidden_events_absorbed_exit_forwarded
    [of "constructor demo_env demo_props" "''target''" demo_engine] h t
  show ?thesis by simp
qed

subsection \<open>C4: hiding the tour\<close>

text \<open>
  C4. When the props say not enabled and isVisible is true, renderSteps first sets
  isVisible to false and only then runs the engine's exit: its result is what the exit
  method gives on the component with the flag already cleared. Every handler the engine
  fires during that exit, the exit handler among them, finds isVisible false.
\<close>

theorem renderSteps_hides_before_exit:
  assumes "\<not> enabled (props w)" and "isVisible w" and "introJs w = Some e"
  shows "\<exists>w' l.
           run (lib_exit X e)
               (w\<lparr>isVisible := False, trace := trace w @ [SetVisible False, EngineExit]\<rparr>)
             = Inr w'
           \<and> renderSteps X w = Inr w' \<and> \<not> isVisible w'
           \<and> trace w' = trace w @ [SetVisible False, EngineExit] @ l
           \<and> list_all relay_effect l
           \<and> (\<forall>(ev, wh) \<in> set (fired (lib_exit X e)
                                    (w\<lparr>isVisible := False,
                                       trace := trace w @ [SetVisible False, EngineExit]\<rparr>)).
                 \<not> isVisible wh)"
proof -
  let ?w0 = "w\<lparr>isVisible := False, trace := trace w @ [SetVisible False, EngineExit]\<rparr>"
  have i: "introJs ?w0 \<noteq> None" and v: "\<not> isVisible ?w0"
    using assms(3) by simp_all
  from run_ok[OF i, of "lib_exit X e"] obtain w' l where
    x: "run (lib_exit X e) ?w0 = Inr w'" "trace w' = trace ?w0 @ l" "list_all relay_effect l"
       "isVisible w' \<longrightarrow> isVisible ?w0"
    by blast
  have "engine_call EngineExit (lib_exit X) (setVisible False w) = Inr w'"
    using assms(3) x(1) by (simp add: engine_call_def emit_def setVisible_def)
  then have "renderSteps X w = Inr w'"
    using assms(1,2) by (simp add: renderSteps_def)
  moreover have "\<not> isVisible w'" using x(4) by simp
  moreover have "trace w' = trace w @ [SetVisible False, EngineExit] @ l"
    using x(2) by simp
  moreover have "\<forall>(ev, wh) \<in> set (fired (lib_exit X e) ?w0). \<not> isVisible wh"
    using fired_hidden[OF i v] by blast
  ultimately show ?thesis using x(1,3) by blast
qed

theorem renderSteps_hides_before_exit_witness:
  "\<not> enabled (props (demo_visible\<lparr>props := demo_props\<rparr>))
   \<and> isVisible (demo_visible\<lparr>props := demo_props\<rparr>)
   \<and> (\<exists>e. introJs (demo_visible\<lparr>props := demo_props\<rparr>) = Some e
        \<and> (\<exists>w' l.
              run (lib_exit demo_env e)
                  (demo_visible\<lparr>props := demo_props, isVisible := False,
                     trace := trace demo_visible @ [SetVisible False, EngineExit]\<rparr>) = Inr w'
              \<and> renderSteps demo_env (demo_visible\<lparr>props := demo_props\<rparr>) = Inr w'
              \<and> \<not> isVisible w'
              \<and> trace w' = trace demo_visible @ [SetVisible False, EngineExit] @ l
              \<and> list_all relay_effect l)
        \<and> map fst (fired (lib_exit demo_env e)
                      (demo_visible\<lparr>props := demo_props, isVisible := False,
                         trace := trace demo_visible @ [SetVisible False, EngineExit]\<rparr>))
            = [EvBeforeExit, EvExit])
   \<and> trace_of (renderSteps demo_env (demo_visible\<lparr>props := demo_props\<rparr>)) =
       trace demo_visible @ [SetVisible False, EngineExit, SetVisible False, CallOnExit (Some 1)]"
proof -
  let ?w = "demo_visible\<lparr>props := demo_props\<rparr>"
  obtain e where e: "introJs ?w = Some e" using demo_visible_engine by simp
  have h: "\<not> enabled (props ?w)" "isVisible ?w"
    using demo_visible_state by (simp_all add: demo_props_def)
  have f: "map fst (fired (lib_exit demo_env e)
                      (demo_visible\<lparr>props := demo_props, isVisible := False,
                         trace := trace demo_visible @ [SetVisible False, EngineExit]\<rparr>))
            = [EvBeforeExit, EvExit]"
    using e by (simp add: demo_env_def demo_exit_def demo_props_def relay_defs)
  have v: "trace_of (renderSteps demo_env ?w) =
       trace demo_visible @ [SetVisible False, EngineExit, SetVisible False, CallOnExit (Some 1)]"
    using demo_visible_state demo_visible_engine
    by (simp add: trace_of_def renderSteps_def engine_call_def demo_env_def demo_exit_def
          demo_props_def relay_defs)
  from renderSteps_hides_before_exit[OF h e, of demo_env] obtain w' l where
    c: "run (lib_exit demo_env e)
            (?w\<lparr>isVisible := False, trace := trace ?w @ [SetVisible False, EngineExit]\<rparr>) = Inr w'"
       "renderSteps demo_env ?w = Inr w'" "\<not> isVisible w'"
       "trace w' = trace ?w @ [SetVisible False, EngineExit] @ l" "list_all relay_effect l"
    by blast
  have "\<exists>w' l.
          run (lib_exit demo_env e)
              (demo_visible\<lparr>props := demo_props, isVisible := False,
                 trace := trace demo_visible @ [SetVisible False, EngineExit]\<rparr>) = Inr w'
          \<and> renderSteps demo_env ?w = Inr w' \<and> \<not> isVisible w'
          \<and> trace w' = trace demo_visible @ [SetVisible False, EngineExit] @ l
          \<and> list_all relay_effect l"
    using c by (intro exI[of _ w'] exI[of _ l]) simp
  with e f have "\<exists>e. introJs ?w = Some e
        \<and> (\<exists>w' l.
              run (lib_exit demo_env e)
                  (demo_visible\<lparr>props := demo_props, isVisible := False,
                     trace := trace demo_visible @ [SetVisible False, EngineExit]\<rparr>) = Inr w'
              \<and> renderSteps demo_env ?w = Inr w'
              \<and> \<not> isVisible w'
              \<and> trace w' = trace demo_visible @ [SetVisible False, EngineExit] @ l
              \<and> list_all relay_effect l)
        \<and> map fst (fired (lib_exit demo_env e)
                      (demo_visible\<lparr>props := demo_props, isVisible := False,
                         trace := trace demo_visible @ [SetVisible False, EngineExit]\<rparr>))
            = [EvBeforeExit, EvExit]"
    by (intro exI[of _ e] conjI)
  with h v show ?thesis by (intro conjI)
qed

subsection \<open>C5: the deferred prevent-change callback\<close>

text \<open>
  C5, as the code has it. The claim as written gives onPreventChange the step the
  engine was on before the transition. The timer's closure reads the engine's current
  step when it runs: an engine that stays on the new index after a veto, or a move of
  the tour before the timer runs, gives another index (see the counterexample below).

  The tour is visible, the consumer's onBeforeChange returns exactly false and
  onPreventChange was supplied: the before-change handler returns false to the engine,
  calls onBeforeChange only, and leaves one more timer pending; a vetoable step of the
  engine ends there, with the engine's undo applied. When the pending timers run next,
  onPreventChange is called with the engine's current step at that time; this is the
  step the engine was on before the transition whenever the engine's undo restores it,
  as that of intro.js does.
\<close>

theorem prevent_change_deferred:
  assumes "isVisible w" and "introJs w = Some e"
    and "onBeforeChange (props w) = Some f" and "onPreventChange (props w)"
    and "f (currentStep (advance e)) el = JBool False"
  shows "dispatch (EvBeforeChange el) (w\<lparr>introJs := Some (advance e)\<rparr>) =
           Inr (JBool False,
                w\<lparr>introJs := Some (advance e),
                  trace := trace w @ [CallOnBeforeChange (currentStep (advance e)) el],
                  timers := timers w @ [PreventChangeTimer]\<rparr>)
         \<and> run (transition advance undo el rest) w =
             Inr (w\<lparr>introJs := Some (undo (advance e)),
                    trace := trace w @ [CallOnBeforeChange (currentStep (advance e)) el],
                    timers := timers w @ [PreventChangeTimer]\<rparr>)
         \<and> execs X (EngineRuns (transition advance undo el rest)
                     # replicate (Suc (length (timers w))) TimerFires) w =
             Inr (w\<lparr>introJs := Some (undo (advance e)),
                    trace := trace w @ [CallOnBeforeChange (currentStep (advance e)) el]
                               @ replicate (Suc (length (timers w)))
                                   (CallOnPreventChange (currentStep (undo (advance e)))),
                    timers := []\<rparr>)
         \<and> (currentStep (undo (advance e)) = currentStep e \<and> timers w = [] \<longrightarrow>
               trace_of (execs X [EngineRuns (transition advance undo el rest), TimerFires] w) =
                 trace w @ [CallOnBeforeChange (currentStep (advance e)) el,
                            CallOnPreventChange (currentStep e)])"
proof -
  let ?wa = "w\<lparr>introJs := Some (advance e)\<rparr>"
  let ?wh = "w\<lparr>introJs := Some (advance e),
                trace := trace w @ [CallOnBeforeChange (currentStep (advance e)) el],
                timers := timers w @ [PreventChangeTimer]\<rparr>"
  let ?w1 = "w\<lparr>introJs := Some (undo (advance e)),
                trace := trace w @ [CallOnBeforeChange (currentStep (advance e)) el],
                timers := timers w @ [PreventChangeTimer]\<rparr>"
  let ?n = "Suc (length (timers w))"
  have d: "dispatch (EvBeforeChange el) ?wa = Inr (JBool False, ?wh)"
    using assms by (simp add: onBeforeChange_relay_def emit_def setTimeout_def)
  have r: "run (transition advance undo el rest) w = Inr ?w1"
    using d assms(2) by (simp add: transition_def)
  have i: "introJs ?w1 = Some (undo (advance e))" by simp
  have n: "length (timers ?w1) = ?n" by simp
  from timers_drain[OF i, of X] have
    t: "execs X (replicate ?n TimerFires) ?w1 =
          Inr (?w1\<lparr>trace := trace ?w1
                        @ replicate ?n (CallOnPreventChange (currentStep (undo (advance e)))),
                  timers := []\<rparr>)"
    unfolding n .
  have x: "execs X (EngineRuns (transition advance undo el rest) # replicate ?n TimerFires) w =
             Inr (w\<lparr>introJs := Some (undo (advance e)),
                    trace := trace w @ [CallOnBeforeChange (currentStep (advance e)) el]
                               @ replicate ?n (CallOnPreventChange (currentStep (undo (advance e)))),
                    timers := []\<rparr>)"
    using r t by simp
  have "trace_of (execs X [EngineRuns (transition advance undo el rest), TimerFires] w) =
          trace w @ [CallOnBeforeChange (currentStep (advance e)) el,
                     CallOnPreventChange (currentStep e)]"
    if "currentStep (undo (advance e)) = currentStep e \<and> timers w = []"
    using x that by (simp add: trace_of_def)
  with d r x show ?thesis by blast
qed

theorem prevent_change_deferred_witness:
  "isVisible demo_visible \<and> onPreventChange (props demo_visible) \<and> timers demo_visible = []
   \<and> map_option currentStep (introJs demo_visible) = Some (Some 1)
   \<and> run demo_next demo_visible =
       Inr (demo_visible\<lparr>trace := trace demo_visible @ [CallOnBeforeChange (Some 2) ''target''],
              timers := [PreventChangeTimer]\<rparr>)
   \<and> trace_of (execs demo_env [EngineRuns demo_next, TimerFires] demo_visible) =
       trace demo_visible @ [CallOnBeforeChange (Some 2) ''target'', CallOnPreventChange (Some 1)]"
proof -
  let ?f = "\<lambda>c (el::element). if c = Some (2::int) then JBool False else JUndefined"
  obtain e where e: "introJs demo_visible = Some e" "currentStep e = Some 1"
    using demo_visible_engine by simp
  have h: "isVisible demo_visible" "onBeforeChange (props demo_visible) = Some ?f"
    "onPreventChange (props demo_visible)"
    "?f (currentStep (demo_advance e)) ''target'' = JBool False"
    using demo_visible_state demo_visible_props e
    by (simp_all add: demo_props_def demo_advance_def)
  have t: "timers demo_visible = []" using demo_visible_state by simp
  have u: "currentStep (demo_undo (demo_advance e)) = currentStep e"
    "demo_undo (demo_advance e) = e" "currentStep (demo_advance e) = Some 2"
    using e by (simp_all add: demo_undo_def demo_advance_def)
  note p = prevent_change_deferred[where w = demo_visible and e = e and f = "?f"
               and advance = demo_advance and el = "''target''" and undo = demo_undo
               and rest = demo_rest and X = demo_env, OF h(1) e(1) h(2,3,4)]
  from p have r: "run (transition demo_advance demo_undo ''target'' demo_rest) demo_visible =
             Inr (demo_visible\<lparr>introJs := Some (demo_undo (demo_advance e)),
                    trace := trace demo_visible
                               @ [CallOnBeforeChange (currentStep (demo_advance e)) ''target''],
                    timers := timers demo_visible @ [PreventChangeTimer]\<rparr>)"
    by blast
  from p u(1) t have x:
    "trace_of (execs demo_env
                 [EngineRuns (transition demo_advance demo_undo ''target'' demo_rest), TimerFires]
                 demo_visible) =
       trace demo_visible @ [CallOnBeforeChange (currentStep (demo_advance e)) ''target'',
                             CallOnPreventChange (currentStep e)]"
    by blast
  have i: "demo_visible\<lparr>introJs := Some e\<rparr> = demo_visible" using e(1) by simp
  have "run demo_next demo_visible =
       Inr (demo_visible\<lparr>trace := trace demo_visible @ [CallOnBeforeChange (Some 2) ''target''],
              timers := [PreventChangeTimer]\<rparr>)"
    using r u t e(1) by (simp add: demo_next_def)
  moreover have "trace_of (execs demo_env [EngineRuns demo_next, TimerFires] demo_visible) =
       trace demo_visible @ [CallOnBeforeChange (Some 2) ''target'', CallOnPreventChange (Some 1)]"
    using x u e(2) by (simp add: demo_next_def)
  ultimately show ?thesis using h(1,3) t e by simp
qed

theorem prevent_change_index_counterexample:
  "map_option currentStep (introJs demo_visible) = Some (Some 1)
   \<and> trace_of (execs demo_env [EngineRuns demo_next_no_undo, TimerFires] demo_visible) =
       trace demo_visible @ [CallOnBeforeChange (Some 2) ''target'', CallOnPreventChange (Some 2)]
   \<and> trace_of (execs demo_env [EngineRuns demo_next, EngineRuns demo_back_to_first, TimerFires]
                 demo_visible) =
       trace demo_visible @ [CallOnBeforeChange (Some 2) ''target'', CallOnPreventChange (Some 0)]"
  using demo_visible_state demo_visible_engine demo_visible_props
  by (simp add: trace_of_def demo_next_no_undo_def demo_back_to_first_def demo_next_def
        transition_def demo_advance_def demo_undo_def demo_rest_def demo_props_def
        relay_defs runTimer_def Let_def)

subsection \<open>C6: how often the engine is configured\<close>

text \<open>
  C6, as the code has it. The claim as written (once for each distinct pair of
  references) fails: a pair that comes back after another one is configured again, and a
  component mounted disabled and never updated is not configured at all (see the
  counterexample below). componentDidUpdate compares with the previous props only.

  What holds, in the browser: over a mount followed by any props updates, the engine is
  configured once for each maximal run of consecutive props with the same pair of
  references, the run of the initial props counting only when the component is mounted
  enabled. Updates that touch neither reference never configure again.
\<close>

theorem configured_once_per_change_of_refs:
  assumes "\<not> isServer X"
  shows "configured_times X (Mount # map Update ps) p0 =
           Some (if enabled p0 then length (remdups_adj (map ref_pair (p0 # ps)))
                 else length (remdups_adj (map ref_pair ps)))"
proof -
  let ?w0 = "constructor X p0"
  have w0: "introJs ?w0 \<noteq> None" "\<not> isConfigured ?w0" "props ?w0 = p0" "trace ?w0 = []"
    using assms by (simp_all add: constructor_def installIntroJs_def)
  from didMount_ok[OF w0(1), of X] obtain w1 where
    m: "componentDidMount X ?w0 = Inr w1" "introJs w1 \<noteq> None" by blast
  from didMount_keeps[OF m(1)] didMount_configured[OF m(1)] w0 have
    k: "props w1 = p0" "isConfigured w1 = enabled p0"
       "configure_runs (trace w1) = (if enabled p0 then 1 else 0)"
    by auto
  from updates_count[OF m(2), of X ps] obtain w' where
    r: "execs X (map Update ps) w1 = Inr w'"
       "configure_runs (trace w') =
          configure_runs (trace w1)
          + (if isConfigured w1 then length (remdups_adj (map ref_pair (props w1 # ps))) - 1
             else length (remdups_adj (map ref_pair ps)))"
    by blast
  have pos: "0 < length (remdups_adj (ref_pair p0 # map ref_pair ps))"
    by (rule remdups_adj_length_pos)
  have "execs X (Mount # map Update ps) ?w0 = Inr w'" using m(1) r(1) by simp
  moreover have "configure_runs (trace w') =
      (if enabled p0 then length (remdups_adj (map ref_pair (p0 # ps)))
       else length (remdups_adj (map ref_pair ps)))"
    using r(2) k pos by simp
  ultimately show ?thesis by (simp add: configured_times_def)
qed

theorem configured_once_per_change_of_refs_witness:
  "\<not> isServer demo_env
   \<and> configured_times demo_env
        (Mount # map Update [demo_props\<lparr>enabled := True\<rparr>, demo_props\<lparr>initialStep := Finite 0\<rparr>,
                             demo_props\<lparr>stepsRef := 1\<rparr>, demo_props\<lparr>stepsRef := 1, enabled := True\<rparr>,
                             demo_props\<lparr>optionsRef := 1\<rparr>])
        demo_props = Some 3"
proof -
  have h: "\<not> isServer demo_env" by (simp add: demo_env_def)
  have "length (remdups_adj (map ref_pair
           [demo_props\<lparr>enabled := True\<rparr>, demo_props\<lparr>initialStep := Finite 0\<rparr>,
            demo_props\<lparr>stepsRef := 1\<rparr>, demo_props\<lparr>stepsRef := 1, enabled := True\<rparr>,
            demo_props\<lparr>optionsRef := 1\<rparr>])) = 3"
    "\<not> enabled demo_props"
    by (simp_all add: ref_pair_def demo_props_def)
  with configured_once_per_change_of_refs[OF h, of
           "[demo_props\<lparr>enabled := True\<rparr>, demo_props\<lparr>initialStep := Finite 0\<rparr>,
            demo_props\<lparr>stepsRef := 1\<rparr>, demo_props\<lparr>stepsRef := 1, enabled := True\<rparr>,
            demo_props\<lparr>optionsRef := 1\<rparr>]" demo_props] h
  show ?thesis by simp
qed

theorem configured_once_per_pair_counterexample:
  "configured_times demo_env
      [Mount, Update (demo_props\<lparr>stepsRef := 1\<rparr>), Update demo_props,
       Update (demo_props\<lparr>stepsRef := 1\<rparr>)] demo_props = Some 3
   \<and> length (remdups (map ref_pair
        [demo_props, demo_props\<lparr>stepsRef := 1\<rparr>, demo_props, demo_props\<lparr>stepsRef := 1\<rparr>])) = 2
   \<and> configured_times demo_env [Mount] demo_props = Some 0
   \<and> length (remdups (map ref_pair [demo_props])) = 1"
  by (simp add: configured_times_def model_defs demo_defs relay_defs ref_pair_def
        configure_runs_def)

subsection \<open>C7: no start without steps\<close>

text \<open>
  C7. With an empty steps array renderSteps records no start, whatever enabled is; and
  over any list of operations on a component constructed with empty steps, in which every
  update brings empty steps, the trace holds no start.
\<close>

theorem no_start_without_steps:
  "(steps (props w) = [] \<and> renderSteps X w = Inr w' \<longrightarrow>
      (\<exists>l. trace w' = trace w @ l \<and> EngineStart \<notin> set l))
   \<and> (steps p0 = [] \<and> (\<forall>p. Update p \<in> set ops \<longrightarrow> steps p = [])
        \<and> execs X ops (constructor X p0) = Inr w2 \<longrightarrow>
        EngineStart \<notin> set (trace w2))"
proof (intro conjI impI)
  assume "steps (props w) = [] \<and> renderSteps X w = Inr w'"
  with renderSteps_keeps[of X w w']
  show "\<exists>l. trace w' = trace w @ l \<and> EngineStart \<notin> set l" by auto
next
  assume h: "steps p0 = [] \<and> (\<forall>p. Update p \<in> set ops \<longrightarrow> steps p = [])
        \<and> execs X ops (constructor X p0) = Inr w2"
  have "steps (props (constructor X p0)) = []" "EngineStart \<notin> set (trace (constructor X p0))"
    using h by (simp_all add: constructor_def installIntroJs_def)
  with execs_keeps[of X ops "constructor X p0" w2] h
  show "EngineStart \<notin> set (trace w2)" by simp
qed

theorem no_start_without_steps_witness:
  "steps (demo_props\<lparr>enabled := True, steps := []\<rparr>) = []
   \<and> steps (demo_props\<lparr>steps := []\<rparr>) = []
   \<and> steps (demo_props\<lparr>enabled := True, steps := [], stepsRef := 1\<rparr>) = []
   \<and> (\<exists>w2. execs demo_env
              [Mount, Update (demo_props\<lparr>steps := []\<rparr>),
               Update (demo_props\<lparr>enabled := True, steps := [], stepsRef := 1\<rparr>)]
              (constructor demo_env (demo_props\<lparr>enabled := True, steps := []\<rparr>)) = Inr w2
         \<and> EngineStart \<notin> set (trace w2))
   \<and> (\<exists>w'. renderSteps demo_env (constructor demo_env (demo_props\<lparr>enabled := True, steps := []\<rparr>))
               = Inr w'
         \<and> (\<exists>l. trace w' = trace (constructor demo_env (demo_props\<lparr>enabled := True, steps := []\<rparr>)) @ l
               \<and> EngineStart \<notin> set l))"
proof -
  let ?p0 = "demo_props\<lparr>enabled := True, steps := []\<rparr>"
  let ?ops = "[Mount, Update (demo_props\<lparr>steps := []\<rparr>),
               Update (demo_props\<lparr>enabled := True, steps := [], stepsRef := 1\<rparr>)]"
  have s: "steps ?p0 = []" by simp
  have u: "\<forall>p. Update p \<in> set ?ops \<longrightarrow> steps p = []" by auto
  obtain w2 where x: "execs demo_env ?ops (constructor demo_env ?p0) = Inr w2"
    by (simp add: model_defs demo_defs relay_defs)
  obtain w' where r: "renderSteps demo_env (constructor demo_env ?p0) = Inr w'"
    by (simp add: model_defs demo_defs relay_defs)
  have s': "steps (props (constructor demo_env ?p0)) = []"
    by (simp add: constructor_def installIntroJs_def)
  from no_start_without_steps[of "constructor demo_env ?p0" demo_env w' ?p0 ?ops w2] s u x r s'
  have "EngineStart \<notin> set (trace w2)"
    and "\<exists>l. trace w' = trace (constructor demo_env ?p0) @ l \<and> EngineStart \<notin> set l"
    by blast+
  with x r show ?thesis by auto
qed

subsection \<open>C8: configuring the engine\<close>

text \<open>
  C8, as the code has it. The claim as written renders every intro that is not a plain
  string; the code renders what isValidElement accepts, a single React element, and
  passes a number or an array of nodes on as it is (see the counterexample below).

  configureIntroJs hands the engine the options with the key steps set to the sanitized
  steps, whatever the options held under that key, every other key as in the options. A
  step whose intro is a React element gets the element's static markup as its intro,
  every other step (one with a plain string as intro among them) is passed on as it is.
  isConfigured is true afterwards.
\<close>

theorem configure_pushes_sanitized_steps:
  assumes "introJs w = Some e"
  shows "\<exists>m ss. configureIntroJs X w =
             Inr (w\<lparr>trace := trace w @ [EngineSetOptions m],
                    introJs := Some (lib_setOptions X m e), isConfigured := True\<rparr>)
           \<and> m ''steps'' = Some (OptSteps ss)
           \<and> (\<forall>k. k \<noteq> ''steps'' \<longrightarrow> m k = options (props w) k)
           \<and> length ss = length (steps (props w))
           \<and> (\<forall>i < length ss.
                 (isValidElement (intro (steps (props w) ! i)) \<longrightarrow>
                    ss ! i = (steps (props w) ! i)
                               \<lparr>intro := NText (renderToStaticMarkup X (intro (steps (props w) ! i)))\<rparr>)
               \<and> (\<not> isValidElement (intro (steps (props w) ! i)) \<longrightarrow> ss ! i = steps (props w) ! i)
               \<and> (\<forall>t. intro (steps (props w) ! i) = NText t \<longrightarrow> ss ! i = steps (props w) ! i))"
proof -
  let ?m = "mergedOptions X (props w)"
  let ?ss = "sanitizedSteps X (steps (props w))"
  have "configureIntroJs X w =
          Inr (w\<lparr>trace := trace w @ [EngineSetOptions ?m],
                 introJs := Some (lib_setOptions X ?m e), isConfigured := True\<rparr>)"
    using assms by (simp add: configureIntroJs_def emit_def)
  moreover have "?m ''steps'' = Some (OptSteps ?ss)"
    and "\<forall>k. k \<noteq> ''steps'' \<longrightarrow> ?m k = options (props w) k"
    by (simp_all add: mergedOptions_def)
  moreover have "length ?ss = length (steps (props w))"
    by (simp add: sanitizedSteps_def)
  moreover have "\<forall>i < length ?ss.
                 (isValidElement (intro (steps (props w) ! i)) \<longrightarrow>
                    ?ss ! i = (steps (props w) ! i)
                               \<lparr>intro := NText (renderToStaticMarkup X (intro (steps (props w) ! i)))\<rparr>)
               \<and> (\<not> isValidElement (intro (steps (props w) ! i)) \<longrightarrow> ?ss ! i = steps (props w) ! i)
               \<and> (\<forall>t. intro (steps (props w) ! i) = NText t \<longrightarrow> ?ss ! i = steps (props w) ! i)"
    by (auto simp: sanitizedSteps_def sanitize_def)
  ultimately show ?thesis by blast
qed

theorem configure_pushes_sanitized_steps_witness:
  "introJs (constructor demo_env demo_props) = Some demo_engine
   \<and> (\<exists>m ss. configureIntroJs demo_env (constructor demo_env demo_props) =
             Inr ((constructor demo_env demo_props)
                    \<lparr>trace := [EngineSetOptions m],
                     introJs := Some (lib_setOptions demo_env m demo_engine),
                     isConfigured := True\<rparr>)
           \<and> m ''steps'' = Some (OptSteps ss)
           \<and> m ''showButtons'' = Some (OptVal (JBool True))
           \<and> ss = [demo_step0, demo_step1\<lparr>intro := NText ''<b>More</b>''\<rparr>])"
proof -
  let ?w = "constructor demo_env demo_props"
  have h: "introJs ?w = Some demo_engine"
    by (simp add: constructor_def installIntroJs_def demo_env_def)
  have p: "trace ?w = []" "steps (props ?w) = [demo_step0, demo_step1]"
    "options (props ?w) ''showButtons'' = Some (OptVal (JBool True))"
    "isValidElement (intro demo_step1)" "\<not> isValidElement (intro demo_step0)"
    "renderToStaticMarkup demo_env (intro demo_step1) = ''<b>More</b>''"
    by (simp_all add: constructor_def installIntroJs_def demo_defs)
  from configure_pushes_sanitized_steps[OF h, of demo_env] obtain m ss where
    c: "configureIntroJs demo_env ?w =
             Inr (?w\<lparr>trace := trace ?w @ [EngineSetOptions m],
                    introJs := Some (lib_setOptions demo_env m demo_engine), isConfigured := True\<rparr>)"
       "m ''steps'' = Some (OptSteps ss)"
       "\<forall>k. k \<noteq> ''steps'' \<longrightarrow> m k = options (props ?w) k"
       "length ss = length (steps (props ?w))"
       "\<forall>i < length ss.
                 (isValidElement (intro (steps (props ?w) ! i)) \<longrightarrow>
                    ss ! i = (steps (props ?w) ! i)
                               \<lparr>intro := NText (renderToStaticMarkup demo_env (intro (steps (props ?w) ! i)))\<rparr>)
               \<and> (\<not> isValidElement (intro (steps (props ?w) ! i)) \<longrightarrow> ss ! i = steps (props ?w) ! i)
               \<and> (\<forall>t. intro (steps (props ?w) ! i) = NText t \<longrightarrow> ss ! i = steps (props ?w) ! i)"
    by blast
  have l: "length ss = 2" using c(4) p(2) by simp
  have "ss ! 0 = demo_step0" "ss ! 1 = demo_step1\<lparr>intro := NText ''<b>More</b>''\<rparr>"
    using c(5) l p by (auto simp: nth_Cons')
  with l have "ss = [demo_step0, demo_step1\<lparr>intro := NText ''<b>More</b>''\<rparr>]"
    by (auto simp: list_eq_iff_nth_eq less_Suc_eq numeral_2_eq_2)
  moreover have "m ''showButtons'' = Some (OptVal (JBool True))"
    using c(3) p(3) by simp
  ultimately show ?thesis using h c(1,2) p(1) by auto
qed

theorem configure_renderable_node_counterexample:
  "spec_renderable_node (NArray [NElement ''<b>More</b>''])
   \<and> sanitize demo_env (demo_step1\<lparr>intro := NArray [NElement ''<b>More</b>'']\<rparr>) =
       demo_step1\<lparr>intro := NArray [NElement ''<b>More</b>'']\<rparr>
   \<and> spec_renderable_node (NNumber 7)
   \<and> sanitize demo_env (demo_step1\<lparr>intro := NNumber 7\<rparr>) = demo_step1\<lparr>intro := NNumber 7\<rparr>
   \<and> trace_of (configureIntroJs demo_env
                 (constructor demo_env
                    (demo_props\<lparr>steps := [demo_step1\<lparr>intro := NArray [NElement ''<b>More</b>'']\<rparr>]\<rparr>))) =
       [EngineSetOptions
          ((options demo_props)
             (''steps'' \<mapsto> OptSteps [demo_step1\<lparr>intro := NArray [NElement ''<b>More</b>'']\<rparr>]))]"
  by (simp add: trace_of_def sanitize_def configureIntroJs_def constructor_def installIntroJs_def
        mergedOptions_def sanitizedSteps_def emit_def demo_env_def)

subsection \<open>C9: re-binding the element of a step\<close>




subsection \<open>C10: isConfigured never goes back\<close>

text \<open>
  C10. isConfigured is false after construction; configureIntroJs sets it; once it is
  true no list of operations clears it; and a configured component reconfigures in
  componentDidUpdate exactly when the steps or options reference differs from the
  previous props.
\<close>

theorem isConfigured_monotone:
  "\<not> isConfigured (constructor X p)
   \<and> (configureIntroJs X w = Inr w1 \<longrightarrow> isConfigured w1)
   \<and> (isConfigured w \<and> execs X ops w = Inr w2 \<longrightarrow> isConfigured w2)
   \<and> (isConfigured w \<and> introJs w \<noteq> None \<longrightarrow>
        (\<exists>w3. componentDidUpdate X prevProps w = Inr w3 \<and> isConfigured w3
           \<and> configure_runs (trace w3) =
               configure_runs (trace w)
               + (if stepsRef prevProps \<noteq> stepsRef (props w)
                     \<or> optionsRef prevProps \<noteq> optionsRef (props w) then 1 else 0)))"
proof (intro conjI impI)
  show "\<not> isConfigured (constructor X p)"
    by (simp add: constructor_def installIntroJs_def)
next
  assume "configureIntroJs X w = Inr w1"
  from configure_keeps[OF this] show "isConfigured w1" by simp
next
  assume "isConfigured w \<and> execs X ops w = Inr w2"
  with execs_keeps[of X ops w w2] show "isConfigured w2" by simp
next
  assume h: "isConfigured w \<and> introJs w \<noteq> None"
  then obtain w3 where u: "componentDidUpdate X prevProps w = Inr w3"
    using didUpdate_ok[of w X prevProps] by blast
  from didUpdate_keeps[OF u] obtain l where
    k: "isConfigured w3" "trace w3 = trace w @ l"
       "configure_runs l =
          (if \<not> isConfigured w \<or> stepsRef prevProps \<noteq> stepsRef (props w)
              \<or> optionsRef prevProps \<noteq> optionsRef (props w) then 1 else 0)"
    by blast
  have "configure_runs (trace w3) =
               configure_runs (trace w)
               + (if stepsRef prevProps \<noteq> stepsRef (props w)
                     \<or> optionsRef prevProps \<noteq> optionsRef (props w) then 1 else 0)"
    using k(2,3) h by (simp add: configure_runs_append)
  with u k(1)
  show "\<exists>w3. componentDidUpdate X prevProps w = Inr w3 \<and> isConfigured w3
           \<and> configure_runs (trace w3) =
               configure_runs (trace w)
               + (if stepsRef prevProps \<noteq> stepsRef (props w)
                     \<or> optionsRef prevProps \<noteq> optionsRef (props w) then 1 else 0)"
    by blast
qed

theorem isConfigured_monotone_witness:
  "\<not> isConfigured (constructor demo_env demo_props)
   \<and> (\<exists>w1. configureIntroJs demo_env (constructor demo_env demo_props) = Inr w1 \<and> isConfigured w1)
   \<and> isConfigured demo_visible \<and> introJs demo_visible \<noteq> None
   \<and> (\<exists>w2. execs demo_env [Update (demo_props\<lparr>stepsRef := 5\<rparr>), EngineRuns demo_exit,
                            TimerFires, Unmount] demo_visible = Inr w2 \<and> isConfigured w2)
   \<and> (\<exists>w3. componentDidUpdate demo_env (demo_props\<lparr>optionsRef := 7\<rparr>) demo_visible = Inr w3
         \<and> isConfigured w3 \<and> configure_runs (trace w3) = 2)
   \<and> (\<exists>w3. componentDidUpdate demo_env demo_props demo_visible = Inr w3
         \<and> isConfigured w3 \<and> configure_runs (trace w3) = 1)"
proof -
  let ?ops = "[Update (demo_props\<lparr>stepsRef := 5\<rparr>), EngineRuns demo_exit, TimerFires, Unmount]"
  have c: "isConfigured demo_visible" "introJs demo_visible \<noteq> None"
    "configure_runs (trace demo_visible) = 1"
    "stepsRef (props demo_visible) = 0" "optionsRef (props demo_visible) = 0"
    using demo_visible_state demo_visible_engine
    by (simp_all add: demo_visible_configured demo_visible_props configure_runs_def demo_props_def)
  have "\<exists>w1. configureIntroJs demo_env (constructor demo_env demo_props) = Inr w1"
    by (simp add: model_defs demo_defs)
  then obtain w1 where k: "configureIntroJs demo_env (constructor demo_env demo_props) = Inr w1"
    by blast
  have "\<exists>w2. execs demo_env ?ops demo_visible = Inr w2"
    by (simp add: demo_visible_def model_defs demo_defs relay_defs Let_def)
  then obtain w2 where x: "execs demo_env ?ops demo_visible = Inr w2"
    by blast
  note m1 = isConfigured_monotone[of demo_env demo_props "constructor demo_env demo_props" w1
              ?ops w2 "demo_props\<lparr>optionsRef := 7\<rparr>"]
  note m2 = isConfigured_monotone[of demo_env demo_props demo_visible w1 ?ops w2
              "demo_props\<lparr>optionsRef := 7\<rparr>"]
  note m3 = isConfigured_monotone[of demo_env demo_props demo_visible w1 ?ops w2 demo_props]
  have a: "\<not> isConfigured (constructor demo_env demo_props)" "isConfigured w1"
    using m1 k by blast+
  have b: "isConfigured w2" using m2 c(1) x by blast
  from m2 c(1,2) obtain w3 where
    d3: "componentDidUpdate demo_env (demo_props\<lparr>optionsRef := 7\<rparr>) demo_visible = Inr w3"
        "isConfigured w3"
        "configure_runs (trace w3) =
           configure_runs (trace demo_visible)
           + (if stepsRef (demo_props\<lparr>optionsRef := 7\<rparr>) \<noteq> stepsRef (props demo_visible)
                 \<or> optionsRef (demo_props\<lparr>optionsRef := 7\<rparr>) \<noteq> optionsRef (props demo_visible)
              then 1 else 0)"
    by blast
  from d3(3) c(3,4,5) have "configure_runs (trace w3) = 2" by simp
  with d3(1,2) have
    d: "\<exists>w3. componentDidUpdate demo_env (demo_props\<lparr>optionsRef := 7\<rparr>) demo_visible = Inr w3
         \<and> isConfigured w3 \<and> configure_runs (trace w3) = 2"
    by blast
  from m3 c(1,2) obtain w4 where
    e4: "componentDidUpdate demo_env demo_props demo_visible = Inr w4"
        "isConfigured w4"
        "configure_runs (trace w4) =
           configure_runs (trace demo_visible)
           + (if stepsRef demo_props \<noteq> stepsRef (props demo_visible)
                 \<or> optionsRef demo_props \<noteq> optionsRef (props demo_visible)
              then 1 else 0)"
    by blast
  from e4(3) c(3,4,5) have "configure_runs (trace w4) = 1" by (simp add: demo_props_def)
  with e4(1,2) have
    e: "\<exists>w3. componentDidUpdate demo_env demo_props demo_visible = Inr w3
         \<and> isConfigured w3 \<and> configure_runs (trace w3) = 1"
    by blast
  show ?thesis using a b c(1,2) d e k x by blast
qed

end
